theory Spec2Isabelle
  imports Main "HOL-Library.Sublist"
begin

section \<open>Python strings\<close>

text \<open>
  Python strings are modelled as HOL strings (lists of 8-bit characters), read as ASCII
  text. The operations below are the \<^verbatim>\<open>str\<close> methods that
  \<^verbatim>\<open>src/r2_uploader.py\<close> and \<^verbatim>\<open>r2_upload_example.py\<close> call.
\<close>

abbreviation slash :: char where "slash \<equiv> CHR ''/''"
abbreviation backslash :: char where "backslash \<equiv> CHR 0x5C"
abbreviation dot :: char where "dot \<equiv> CHR ''.''"

text \<open>
  \<open>find_sep sep s\<close> cuts \<open>s\<close> at the leftmost occurrence of \<open>sep\<close>: the text before
  it and the text after it. It is the search step of \<^verbatim>\<open>str.split\<close> and of the
  \<^verbatim>\<open>in\<close> operator on strings.
\<close>

fun find_sep :: "string \<Rightarrow> string \<Rightarrow> (string \<times> string) option" where
  "find_sep sep [] = (if sep = [] then Some ([], []) else None)"
| "find_sep sep (c # cs) =
     (if prefix sep (c # cs) then Some ([], drop (length sep) (c # cs))
      else map_option (\<lambda>(a, b). (c # a, b)) (find_sep sep cs))"

text \<open>
  \<^verbatim>\<open>s.split(sep)\<close>: every non-overlapping occurrence of \<open>sep\<close>, left to right, is a
  cut. Python raises \<^verbatim>\<open>ValueError\<close> for an empty separator; the two call sites pass
  the literals \<^verbatim>\<open>'downloads'\<close> and \<^verbatim>\<open>','\<close>, and the model returns the empty list
  in that unreachable case.
\<close>

function str_split :: "string \<Rightarrow> string \<Rightarrow> string list" where
  "str_split sep s =
     (if sep = [] then []
      else case find_sep sep s of
             None \<Rightarrow> [s]
           | Some (a, b) \<Rightarrow> a # str_split sep b)"
  by pat_completeness auto
termination
proof (relation "measure (\<lambda>(sep, s). length s)")
  show "wf (measure (\<lambda>(sep, s). length s))" by simp
next
  fix sep s :: string and x2 a b
  assume sep: "sep \<noteq> []" and found: "find_sep sep s = Some x2" "(a, b) = x2"
  have shorter: "length b' < length t" if "find_sep sep t = Some (a', b')" for t a' b'
    using that
  proof (induction t arbitrary: a')
    case Nil
    with sep show ?case by simp
  next
    case (Cons c cs)
    show ?case
    proof (cases "prefix sep (c # cs)")
      case True
      with Cons.prems have "b' = drop (length sep) (c # cs)" by simp
      with sep show ?thesis by (cases sep) auto
    next
      case False
      with Cons.prems obtain a'' where "find_sep sep cs = Some (a'', b')" by auto
      with Cons.IH have "length b' < length cs" by blast
      then show ?thesis by simp
    qed
  qed
  from found have "find_sep sep s = Some (a, b)" by simp
  then show "((sep, b), (sep, s)) \<in> measure (\<lambda>(sep, s). length s)"
    using shorter by simp
qed

declare str_split.simps [simp del]

text \<open>\<^verbatim>\<open>sub in s\<close> on strings.\<close>

definition str_contains :: "string \<Rightarrow> string \<Rightarrow> bool" where
  "str_contains sub s = (find_sep sub s \<noteq> None)"

text \<open>\<^verbatim>\<open>s.lstrip(chars)\<close> and \<^verbatim>\<open>s.rstrip(chars)\<close>.\<close>

definition lstrip :: "string \<Rightarrow> string \<Rightarrow> string" where
  "lstrip chars s = dropWhile (\<lambda>c. c \<in> set chars) s"

definition rstrip :: "string \<Rightarrow> string \<Rightarrow> string" where
  "rstrip chars s = rev (dropWhile (\<lambda>c. c \<in> set chars) (rev s))"

text \<open>\<^verbatim>\<open>s.replace(old, new)\<close> for one-character \<open>old\<close> and \<open>new\<close>.\<close>

definition str_replace :: "char \<Rightarrow> char \<Rightarrow> string \<Rightarrow> string" where
  "str_replace old new s = map (\<lambda>c. if c = old then new else c) s"

text \<open>
  \<^verbatim>\<open>s.strip()\<close> removes leading and trailing whitespace; the ASCII characters for
  which \<^verbatim>\<open>str.isspace\<close> holds are 9 to 13 and 28 to 32.
\<close>

definition whitespace :: string where
  "whitespace = [CHR 0x09, CHR 0x0A, CHR 0x0B, CHR 0x0C, CHR 0x0D,
                 CHR 0x1C, CHR 0x1D, CHR 0x1E, CHR 0x1F, CHR 0x20]"

definition strip :: "string \<Rightarrow> string" where
  "strip s = rstrip whitespace (lstrip whitespace s)"

text \<open>\<^verbatim>\<open>s.lower()\<close> on ASCII text: the letters A to Z are mapped, nothing else.\<close>

definition lower_char :: "char \<Rightarrow> char" where
  "lower_char c =
     (case map_of (zip ''ABCDEFGHIJKLMNOPQRSTUVWXYZ'' ''abcdefghijklmnopqrstuvwxyz'') c of
        Some d \<Rightarrow> d
      | None \<Rightarrow> c)"

definition lower :: "string \<Rightarrow> string" where
  "lower s = map lower_char s"


section \<open>Paths\<close>

text \<open>
  \<^verbatim>\<open>os.path\<close> and \<^verbatim>\<open>pathlib.Path\<close> in their POSIX flavour (separator \<^verbatim>\<open>/\<close>),
  as in CPython up to 3.13.
\<close>

text \<open>\<^verbatim>\<open>os.path.basename(p)\<close>: the text after the last slash.\<close>

definition os_path_basename :: "string \<Rightarrow> string" where
  "os_path_basename p = rev (takeWhile (\<lambda>c. c \<noteq> slash) (rev p))"

text \<open>\<^verbatim>\<open>os.path.join(a, b)\<close>.\<close>

definition os_path_join :: "string \<Rightarrow> string \<Rightarrow> string" where
  "os_path_join a b =
     (if take 1 b = ''/'' then b
      else if a = [] \<or> last a = slash then a @ b
      else a @ ''/'' @ b)"

text \<open>
  \<^verbatim>\<open>posixpath.splitroot\<close>: the root is empty for a relative path, \<^verbatim>\<open>//\<close> for a path
  that starts with exactly two slashes, and \<^verbatim>\<open>/\<close> otherwise.
\<close>

definition path_root :: "string \<Rightarrow> string" where
  "path_root p =
     (if take 1 p \<noteq> ''/'' then []
      else if take 1 (drop 1 p) \<noteq> ''/'' \<or> take 1 (drop 2 p) = ''/'' then ''/''
      else ''//'')"

text \<open>The components after the root: empty components and \<^verbatim>\<open>.\<close> are dropped.\<close>

definition path_tail :: "string \<Rightarrow> string list" where
  "path_tail p =
     filter (\<lambda>x. x \<noteq> [] \<and> x \<noteq> ''.'') (str_split ''/'' (drop (length (path_root p)) p))"

text \<open>\<^verbatim>\<open>Path(p).parts\<close>.\<close>

definition path_parts :: "string \<Rightarrow> string list" where
  "path_parts p = (if path_root p \<noteq> [] then path_root p # path_tail p else path_tail p)"

text \<open>\<^verbatim>\<open>Path(p).name\<close>: the last component, empty when there is none.\<close>

definition path_name :: "string \<Rightarrow> string" where
  "path_name p = (if path_tail p = [] then [] else last (path_tail p))"

text \<open>\<^verbatim>\<open>name.rfind('.')\<close>: the index of the last occurrence, or \<open>-1\<close>.\<close>

definition rfind :: "char \<Rightarrow> string \<Rightarrow> int" where
  "rfind c s =
     (if c \<in> set s then int (length s) - 1 - int (length (takeWhile (\<lambda>x. x \<noteq> c) (rev s)))
      else - 1)"

text \<open>
  \<^verbatim>\<open>Path(p).suffix\<close>: the name from its last dot on, provided that dot is neither the
  first nor the last character of the name.
\<close>

definition path_suffix :: "string \<Rightarrow> string" where
  "path_suffix p =
     (let name = path_name p; i = rfind dot name
      in if 0 < i \<and> i < int (length name) - 1 then drop (nat i) name else [])"


section \<open>Content types\<close>

text \<open>The dictionary \<^verbatim>\<open>content_types\<close> of \<^verbatim>\<open>R2Uploader._get_content_type\<close>.\<close>

definition content_types :: "(string \<times> string) list" where
  "content_types =
     [(''.mp4'', ''video/mp4''),
      (''.mkv'', ''video/x-matroska''),
      (''.flv'', ''video/x-flv''),
      (''.ts'', ''video/mp2t''),
      (''.m3u8'', ''application/vnd.apple.mpegurl''),
      (''.mp3'', ''audio/mpeg''),
      (''.m4a'', ''audio/mp4''),
      (''.aac'', ''audio/aac''),
      (''.txt'', ''text/plain''),
      (''.json'', ''application/json'')]"

definition get_content_type :: "string \<Rightarrow> string" where
  "get_content_type file_path =
     (let ext = lower (path_suffix file_path)
      in case map_of content_types ext of
           Some t \<Rightarrow> t
         | None \<Rightarrow> ''application/octet-stream'')"


section \<open>Object names\<close>

text \<open>
  The object name that \<^verbatim>\<open>upload_video_to_r2\<close> derives from the local path
  (lines 363 to 369): when the path contains \<^verbatim>\<open>downloads\<close>, the second element of
  \<^verbatim>\<open>file_path.split('downloads')\<close> without its leading separators, otherwise the whole
  path; backslashes become slashes.
\<close>

definition relative_path :: "string \<Rightarrow> string" where
  "relative_path file_path =
     (if str_contains ''downloads'' file_path then
        (let parts = str_split ''downloads'' file_path
         in if length parts > 1 then lstrip [slash, backslash] (parts ! 1) else file_path)
      else file_path)"

definition object_name_of :: "string \<Rightarrow> string" where
  "object_name_of file_path = str_replace backslash slash (relative_path file_path)"


section \<open>Values, exceptions and the outside world\<close>

text \<open>
  The result dictionaries hold booleans, strings and integers under string keys.
\<close>

datatype pyval = VBool bool | VStr string | VInt int

type_synonym pydict = "string \<rightharpoonup> pyval"

text \<open>
  The exceptions of class \<^verbatim>\<open>Exception\<close> that the calls into the outside world raise.
  \<open>ClientError code message text\<close> is botocore's \<^verbatim>\<open>ClientError\<close> with the entries
  \<^verbatim>\<open>Code\<close> and \<^verbatim>\<open>Message\<close> of \<^verbatim>\<open>e.response['Error']\<close> (each may be missing) and
  \<^verbatim>\<open>str(e)\<close>; \<open>OtherException text\<close> is any other exception, with \<^verbatim>\<open>str(e)\<close>.
  Signals outside \<^verbatim>\<open>Exception\<close> (a keyboard interrupt, a cancellation) are not
  modelled.
\<close>

datatype py_exception =
    ClientError "string option" "string option" string
  | OtherException string

text \<open>\<^verbatim>\<open>str(e)\<close>.\<close>

fun exception_text :: "py_exception \<Rightarrow> string" where
  "exception_text (ClientError code message text) = text"
| "exception_text (OtherException text) = text"

text \<open>The \<^verbatim>\<open>ExtraArgs\<close> dictionary handed to the storage client.\<close>

record extra_args =
  ContentType :: "string option"
  Metadata :: "(string \<times> string) list option"

text \<open>
  What the program does to the outside world, in order: a log record (level, the text of
  the f-string, the values it interpolates), a call of the client's
  \<^verbatim>\<open>upload_file(file_path, bucket, object_name, ExtraArgs)\<close>, a call of
  \<^verbatim>\<open>os.remove(file_path)\<close>.
\<close>

datatype level = INFO | SUCCESS | WARNING | ERROR

datatype event =
    Log level string "pyval list"
  | S3Upload string string string extra_args
  | OsRemove string

text \<open>
  The outside world. \<open>fs\<close> maps every path for which \<^verbatim>\<open>os.path.exists\<close> holds to its
  size; \<open>dirs\<close> are the paths for which \<^verbatim>\<open>os.path.isdir\<close> holds; \<open>walk\<close> is what
  \<^verbatim>\<open>os.walk\<close> yields; \<open>undeletable\<close> are the paths on which \<^verbatim>\<open>os.remove\<close> fails;
  \<open>s3\<close> decides, from the number of earlier calls of the client and the arguments of
  this one, whether the client's upload raises; \<open>loop_time\<close> is \<^verbatim>\<open>str(int(loop.time()))\<close>; \<open>trace\<close> is the
  list of events so far.
\<close>

record world =
  fs :: "string \<rightharpoonup> nat"
  dirs :: "string set"
  walk :: "string \<Rightarrow> (string \<times> string list \<times> string list) list"
  undeletable :: "string set"
  s3 :: "nat \<Rightarrow> string \<Rightarrow> string \<Rightarrow> string \<Rightarrow> extra_args \<Rightarrow> py_exception option"
  loop_time :: string
  trace :: "event list"

definition emit :: "event \<Rightarrow> world \<Rightarrow> world" where
  "emit ev w = w\<lparr>trace := trace w @ [ev]\<rparr>"

definition logger :: "level \<Rightarrow> string \<Rightarrow> pyval list \<Rightarrow> world \<Rightarrow> world" where
  "logger lvl msg args w = emit (Log lvl msg args) w"

definition os_path_exists :: "world \<Rightarrow> string \<Rightarrow> bool" where
  "os_path_exists w p = (fs w p \<noteq> None)"

definition os_path_isdir :: "world \<Rightarrow> string \<Rightarrow> bool" where
  "os_path_isdir w p = (p \<in> dirs w)"

text \<open>\<^verbatim>\<open>os.path.getsize\<close> raises \<^verbatim>\<open>OSError\<close> on a path that does not exist.\<close>

definition os_path_getsize :: "world \<Rightarrow> string \<Rightarrow> py_exception + nat" where
  "os_path_getsize w p =
     (case fs w p of None \<Rightarrow> Inl (OtherException ''OSError'') | Some n \<Rightarrow> Inr n)"

text \<open>
  \<^verbatim>\<open>os.remove\<close> removes the path, or raises \<^verbatim>\<open>OSError\<close> and leaves the file system
  as it is.
\<close>

definition os_remove :: "string \<Rightarrow> world \<Rightarrow> (py_exception + unit) \<times> world" where
  "os_remove p w =
     (let w1 = emit (OsRemove p) w
      in if fs w p \<noteq> None \<and> p \<notin> undeletable w
         then (Inr (), w1\<lparr>fs := (fs w1)(p := None)\<rparr>)
         else (Inl (OtherException ''OSError''), w1))"

text \<open>The number of calls of the storage client so far.\<close>

fun is_upload :: "event \<Rightarrow> bool" where
  "is_upload (S3Upload file_path bucket object_name extra) = True"
| "is_upload ev = False"

definition uploads_so_far :: "world \<Rightarrow> nat" where
  "uploads_so_far w = length (filter is_upload (trace w))"

text \<open>The paths on which \<^verbatim>\<open>os.remove\<close> has been called so far, in order.\<close>

fun removed_path :: "event \<Rightarrow> string list" where
  "removed_path (OsRemove p) = [p]"
| "removed_path ev = []"

definition removals :: "world \<Rightarrow> string list" where
  "removals w = concat (map removed_path (trace w))"

text \<open>
  The paths on which \<^verbatim>\<open>upload_single_file\<close> has been entered so far, in order, read
  off the log: the function starts either with the error record "File not found" or
  with the record "Uploading ...", each interpolating the path.
\<close>

fun attempted :: "event \<Rightarrow> string list" where
  "attempted (Log lvl msg args) =
     (if (lvl = ERROR \<and> msg = ''File not found: {file_path}'') \<or>
         (lvl = INFO \<and> msg = ''Uploading {file_path}...'')
      then (case args of [VStr p] \<Rightarrow> [p] | _ \<Rightarrow> [])
      else [])"
| "attempted ev = []"

definition attempts :: "world \<Rightarrow> string list" where
  "attempts w = concat (map attempted (trace w))"

text \<open>The storage client's \<^verbatim>\<open>upload_file\<close>.\<close>

definition s3_upload_file ::
  "string \<Rightarrow> string \<Rightarrow> string \<Rightarrow> extra_args \<Rightarrow> world \<Rightarrow> (py_exception + unit) \<times> world" where
  "s3_upload_file file_path bucket object_name extra w =
     (let w1 = emit (S3Upload file_path bucket object_name extra) w
      in case s3 w (uploads_so_far w) file_path bucket object_name extra of
           None \<Rightarrow> (Inr (), w1)
         | Some e \<Rightarrow> (Inl e, w1))"


section \<open>The uploader\<close>

record R2Uploader =
  account_id :: string
  bucket_name :: string
  public_url :: "string option"
  endpoint_url :: string

text \<open>
  The object name and the \<^verbatim>\<open>ExtraArgs\<close> that \<^verbatim>\<open>upload_file\<close> prepares
  (lines 107 to 123).
\<close>

definition upload_arguments ::
  "string \<Rightarrow> string option \<Rightarrow> (string \<times> string) list option \<Rightarrow> string option
     \<Rightarrow> string \<times> extra_args" where
  "upload_arguments file_path object_name metadata content_type =
     (let object_name = (case object_name of None \<Rightarrow> os_path_basename file_path | Some n \<Rightarrow> n);
          content_type = (case content_type of None \<Rightarrow> get_content_type file_path | Some c \<Rightarrow> c)
      in (object_name,
          \<lparr>ContentType = (if content_type \<noteq> [] then Some content_type else None),
           Metadata = (case metadata of
                         None \<Rightarrow> None
                       | Some m \<Rightarrow> if m \<noteq> [] then Some m else None)\<rparr>))"

text \<open>
  \<^verbatim>\<open>R2Uploader.upload_file\<close>. A result \<open>Inl e\<close> is the exception \<open>e\<close> leaving the
  function, \<open>Inr d\<close> is the dictionary returned. The \<^verbatim>\<open>try\<close> block is the call of
  the client; its two handlers are the two cases of \<open>py_exception\<close>.
\<close>

definition upload_file ::
  "R2Uploader \<Rightarrow> string \<Rightarrow> string option \<Rightarrow> (string \<times> string) list option \<Rightarrow> string option
     \<Rightarrow> world \<Rightarrow> (py_exception + pydict) \<times> world" where
  "upload_file self file_path object_name metadata content_type w =
     (if \<not> os_path_exists w file_path then
        (Inr [''success'' \<mapsto> VBool False, ''error'' \<mapsto> VStr ''File not found''],
         logger ERROR ''File not found: {file_path}'' [VStr file_path] w)
      else
        case upload_arguments file_path object_name metadata content_type of
          (object_name, extra) \<Rightarrow>
            case os_path_getsize w file_path of
             Inl e \<Rightarrow> (Inl e, w)
           | Inr file_size \<Rightarrow>
               let w1 = logger INFO ''Uploading {file_path} ({file_size / 1024 / 1024:.2f} MB) to R2: {object_name}''
                          [VStr file_path, VInt (int file_size), VStr object_name] w
               in case s3_upload_file file_path (bucket_name self) object_name extra w1 of
                    (Inr u, w2) \<Rightarrow>
                      let w3 = logger SUCCESS ''Successfully uploaded {object_name} to R2''
                                 [VStr object_name] w2;
                          result = [''success'' \<mapsto> VBool True,
                                    ''object_name'' \<mapsto> VStr object_name,
                                    ''size'' \<mapsto> VInt (int file_size),
                                    ''bucket'' \<mapsto> VStr (bucket_name self)];
                          result = (case public_url self of
                                      None \<Rightarrow> result
                                    | Some p \<Rightarrow>
                                        if p \<noteq> [] then
                                          result(''url'' \<mapsto> VStr (rstrip ''/'' p @ ''/'' @ object_name))
                                        else result)
                      in (Inr result, w3)
                  | (Inl (ClientError code message text), w2) \<Rightarrow>
                      let error_code = (case code of None \<Rightarrow> ''Unknown'' | Some c \<Rightarrow> c);
                          error_msg = (case message of None \<Rightarrow> text | Some m \<Rightarrow> m);
                          w3 = logger ERROR ''R2 upload failed: {error_code} - {error_msg}''
                                 [VStr error_code, VStr error_msg] w2
                      in (Inr [''success'' \<mapsto> VBool False,
                               ''error'' \<mapsto> VStr (error_code @ '': '' @ error_msg),
                               ''object_name'' \<mapsto> VStr object_name], w3)
                  | (Inl (OtherException text), w2) \<Rightarrow>
                      let w3 = logger ERROR ''Unexpected error during upload: {e}'' [VStr text] w2
                      in (Inr [''success'' \<mapsto> VBool False,
                               ''error'' \<mapsto> VStr text,
                               ''object_name'' \<mapsto> VStr object_name], w3))"

text \<open>
  \<^verbatim>\<open>upload_file_async\<close> hands the call to an executor and awaits it; the model runs
  it in place.
\<close>

definition upload_file_async ::
  "R2Uploader \<Rightarrow> string \<Rightarrow> string option \<Rightarrow> (string \<times> string) list option \<Rightarrow> string option
     \<Rightarrow> world \<Rightarrow> (py_exception + pydict) \<times> world" where
  "upload_file_async self file_path object_name metadata content_type w =
     upload_file self file_path object_name metadata content_type w"

text \<open>\<^verbatim>\<open>result.get('success')\<close> read as a truth value.\<close>

definition truthy :: "pyval option \<Rightarrow> bool" where
  "truthy v =
     (case v of
        None \<Rightarrow> False
      | Some (VBool b) \<Rightarrow> b
      | Some (VStr s) \<Rightarrow> s \<noteq> []
      | Some (VInt i) \<Rightarrow> i \<noteq> 0)"

text \<open>The metadata that \<^verbatim>\<open>upload_video_to_r2\<close> attaches (lines 372 to 376).\<close>

definition video_metadata :: "string \<Rightarrow> string \<Rightarrow> world \<Rightarrow> (string \<times> string) list" where
  "video_metadata platform anchor_name w =
     [(''platform'', platform),
      (''anchor'', anchor_name),
      (''upload_timestamp'', loop_time w)]"

text \<open>\<^verbatim>\<open>upload_video_to_r2\<close>.\<close>

definition upload_video_to_r2 ::
  "R2Uploader \<Rightarrow> string \<Rightarrow> string \<Rightarrow> string \<Rightarrow> bool \<Rightarrow> world
     \<Rightarrow> (py_exception + pydict) \<times> world" where
  "upload_video_to_r2 uploader file_path platform anchor_name delete_after_upload w =
     (if \<not> os_path_exists w file_path then
        (Inr [''success'' \<mapsto> VBool False, ''error'' \<mapsto> VStr ''File not found''],
         logger ERROR ''Video file not found: {file_path}'' [VStr file_path] w)
      else
        let object_name = object_name_of file_path;
            metadata = video_metadata platform anchor_name w
        in case upload_file_async uploader file_path (Some object_name) (Some metadata) None w of
             (Inl e, w1) \<Rightarrow> (Inl e, w1)
           | (Inr result, w1) \<Rightarrow>
               if truthy (result ''success'') \<and> delete_after_upload then
                 (case os_remove file_path w1 of
                    (Inr u, w2) \<Rightarrow>
                      (Inr (result(''local_file_deleted'' \<mapsto> VBool True)),
                       logger INFO ''Deleted local file after upload: {file_path}''
                         [VStr file_path] w2)
                  | (Inl e, w2) \<Rightarrow>
                      (Inr (result(''local_file_deleted'' \<mapsto> VBool False)),
                       logger WARNING ''Failed to delete local file {file_path}: {e}''
                         [VStr file_path, VStr (exception_text e)] w2))
               else (Inr result, w1))"


section \<open>The command-line example\<close>

text \<open>\<^verbatim>\<open>upload_single_file\<close> of \<^verbatim>\<open>r2_upload_example.py\<close>.\<close>

definition upload_single_file ::
  "R2Uploader \<Rightarrow> string \<Rightarrow> string \<Rightarrow> string \<Rightarrow> bool \<Rightarrow> world
     \<Rightarrow> (py_exception + bool) \<times> world" where
  "upload_single_file uploader file_path platform anchor delete_after w =
     (if \<not> os_path_exists w file_path then
        (Inr False, logger ERROR ''File not found: {file_path}'' [VStr file_path] w)
      else
        let w1 = logger INFO ''Uploading {file_path}...'' [VStr file_path] w
        in case upload_video_to_r2 uploader file_path platform anchor delete_after w1 of
             (Inl e, w2) \<Rightarrow> (Inl e, w2)
           | (Inr result, w2) \<Rightarrow>
               if truthy (result ''success'') then
                 let w3 = logger SUCCESS ''Upload successful!'' [] w2;
                     w4 = logger INFO ''  Object: {result.get('object_name')}''
                            (case result ''object_name'' of None \<Rightarrow> [] | Some v \<Rightarrow> [v]) w3;
                     w5 = logger INFO ''  Size: {result.get('size', 0) / 1024 / 1024:.2f} MB''
                            [case result ''size'' of None \<Rightarrow> VInt 0 | Some v \<Rightarrow> v] w4;
                     w6 = (case result ''url'' of
                             None \<Rightarrow> w5
                           | Some v \<Rightarrow> logger INFO ''  URL: {result.get('url')}'' [v] w5)
                 in (Inr True, w6)
               else
                 (Inr False,
                  logger ERROR ''Upload failed: {result.get('error')}''
                    (case result ''error'' of None \<Rightarrow> [] | Some v \<Rightarrow> [v]) w2))"

text \<open>
  The extensions that \<^verbatim>\<open>upload_directory\<close> selects (lines 98 to 104): the built-in
  set, replaced by the entries of a non-empty \<^verbatim>\<open>format_filter\<close>.
\<close>

definition default_extensions :: "string list" where
  "default_extensions =
     [''.mp4'', ''.mkv'', ''.flv'', ''.ts'', ''.m3u8'', ''.avi'', ''.mov'', ''.wmv'']"

definition video_extensions :: "string option \<Rightarrow> string set" where
  "video_extensions format_filter =
     (case format_filter of
        None \<Rightarrow> set default_extensions
      | Some f \<Rightarrow>
          if f \<noteq> [] then set (map (\<lambda>fmt. ''.'' @ lower (strip fmt)) (str_split '','' f))
          else set default_extensions)"

text \<open>The files that the walk of lines 107 to 111 collects, in order.\<close>

definition find_video_files :: "world \<Rightarrow> string \<Rightarrow> string option \<Rightarrow> string list" where
  "find_video_files w dir_path format_filter =
     concat (map (\<lambda>(root, ds, files).
                    map (os_path_join root)
                      (filter (\<lambda>file. lower (path_suffix file) \<in> video_extensions format_filter)
                         files))
               (walk w dir_path))"

text \<open>The platform and the anchor read off the path (lines 122 to 131).\<close>

definition platform_anchor :: "string \<Rightarrow> string \<times> string" where
  "platform_anchor file_path =
     (let parts = path_parts file_path
      in if length parts \<ge> 3 \<and> ''downloads'' \<in> set parts then
           (let idx = length (takeWhile (\<lambda>x. x \<noteq> ''downloads'') parts)
            in if idx + 2 < length parts then (parts ! (idx + 1), parts ! (idx + 2))
               else (''unknown'', ''unknown''))
         else (''unknown'', ''unknown''))"

text \<open>
  The loop of lines 119 to 137 over the files still to upload, with the two counters.
\<close>

fun upload_loop ::
  "R2Uploader \<Rightarrow> bool \<Rightarrow> string list \<Rightarrow> nat \<Rightarrow> nat \<Rightarrow> world
     \<Rightarrow> (py_exception + nat \<times> nat) \<times> world" where
  "upload_loop uploader delete_after [] success_count fail_count w =
     (Inr (success_count, fail_count), w)"
| "upload_loop uploader delete_after (file_path # rest) success_count fail_count w =
     (case platform_anchor file_path of
        (platform, anchor) \<Rightarrow>
          (case upload_single_file uploader file_path platform anchor delete_after w of
             (Inl e, w1) \<Rightarrow> (Inl e, w1)
           | (Inr success, w1) \<Rightarrow>
               if success then upload_loop uploader delete_after rest (success_count + 1) fail_count w1
               else upload_loop uploader delete_after rest success_count (fail_count + 1) w1))"

text \<open>
  \<^verbatim>\<open>upload_directory\<close>. The function returns nothing; its tally is the last log
  record.
\<close>

definition upload_directory ::
  "R2Uploader \<Rightarrow> string \<Rightarrow> bool \<Rightarrow> string option \<Rightarrow> world \<Rightarrow> (py_exception + unit) \<times> world" where
  "upload_directory uploader dir_path delete_after format_filter w =
     (if \<not> os_path_isdir w dir_path then
        (Inr (), logger ERROR ''Directory not found: {dir_path}'' [VStr dir_path] w)
      else
        let video_files = find_video_files w dir_path format_filter;
            w1 = logger INFO ''Found {len(video_files)} video files to upload''
                   [VInt (int (length video_files))] w
        in case upload_loop uploader delete_after video_files 0 0 w1 of
             (Inl e, w2) \<Rightarrow> (Inl e, w2)
           | (Inr (success_count, fail_count), w2) \<Rightarrow>
               (Inr (),
                logger INFO ''Upload complete: {success_count} successful, {fail_count} failed''
                  [VInt (int success_count), VInt (int fail_count)] w2))"


section \<open>The turns of the directory loop\<close>

text \<open>The calls of the storage client so far, in order.\<close>

definition client_calls :: "world \<Rightarrow> event list" where
  "client_calls w = filter is_upload (trace w)"

text \<open>
  The call of the storage client that belongs to a file of the directory loop: the file,
  the bucket, the object name derived from the path, the content type of the path, and
  the metadata with the platform and the anchor read off the path.
\<close>

definition video_extra_args :: "string \<Rightarrow> world \<Rightarrow> extra_args" where
  "video_extra_args file_path w =
     \<lparr>ContentType = Some (get_content_type file_path),
      Metadata = Some (video_metadata (fst (platform_anchor file_path))
                         (snd (platform_anchor file_path)) w)\<rparr>"

definition video_upload_call :: "R2Uploader \<Rightarrow> string \<Rightarrow> world \<Rightarrow> event" where
  "video_upload_call uploader file_path w =
     S3Upload file_path (bucket_name uploader) (object_name_of file_path)
       (video_extra_args file_path w)"

text \<open>
  A file's upload succeeds in a world when the file exists there and the storage client
  does not raise on that call.
\<close>

definition upload_accepted :: "R2Uploader \<Rightarrow> string \<Rightarrow> world \<Rightarrow> bool" where
  "upload_accepted uploader file_path w =
     (os_path_exists w file_path \<and>
      s3 w (uploads_so_far w) file_path (bucket_name uploader) (object_name_of file_path)
        (video_extra_args file_path w) = None)"

text \<open>
  The world in which the turn of each file starts: the first file starts in the given
  world, every later one in the world that \<^verbatim>\<open>upload_single_file\<close> left for the file
  before it.
\<close>

fun turn_worlds :: "R2Uploader \<Rightarrow> bool \<Rightarrow> string list \<Rightarrow> world \<Rightarrow> world list" where
  "turn_worlds uploader delete_after [] w = []"
| "turn_worlds uploader delete_after (file_path # rest) w =
     w # turn_worlds uploader delete_after rest
           (snd (upload_single_file uploader file_path (fst (platform_anchor file_path))
                   (snd (platform_anchor file_path)) delete_after w))"


section \<open>The object key as the specification words it\<close>

text \<open>
  The specification's object key: everything after the root marker, that is after its
  first occurrence, without leading separators and with backslashes turned into slashes;
  the whole path, with the same replacement, when the marker is absent.
\<close>

definition claimed_object_key :: "string \<Rightarrow> string" where
  "claimed_object_key file_path =
     (case find_sep ''downloads'' file_path of
        None \<Rightarrow> str_replace backslash slash file_path
      | Some (before, after) \<Rightarrow> str_replace backslash slash (lstrip [slash, backslash] after))"

text \<open>A relative key does not start with a slash.\<close>

definition is_relative :: "string \<Rightarrow> bool" where
  "is_relative key = (key = [] \<or> hd key \<noteq> slash)"


text \<open>
  The specification's public URL: prefix and object key joined by exactly one slash,
  neither a trailing slash of the prefix nor a leading slash of the key being doubled.
\<close>

definition one_slash_join :: "string \<Rightarrow> string \<Rightarrow> string" where
  "one_slash_join url_prefix key = rstrip ''/'' url_prefix @ ''/'' @ lstrip ''/'' key"

text \<open>The dictionary that a call returns; empty when the call raises.\<close>

definition returned :: "(py_exception + pydict) \<times> world \<Rightarrow> pydict" where
  "returned r = (case fst r of Inl e \<Rightarrow> Map.empty | Inr d \<Rightarrow> d)"


section \<open>Example inputs\<close>

text \<open>
  An uploader with a public URL, and a world with three files in which the storage client
  gives the same answer to every call and \<^verbatim>\<open>os.remove\<close> fails on the paths in
  \<open>locked\<close>. The walk lists a dangling link \<^verbatim>\<open>gone.MKV\<close>, a text file and one
  video.
\<close>

definition cdn_uploader :: R2Uploader where
  "cdn_uploader =
     \<lparr>account_id = ''acct'', bucket_name = ''recordings'',
      public_url = Some ''https://cdn.example.com/'',
      endpoint_url = ''https://acct.r2.cloudflarestorage.com''\<rparr>"

definition disk :: "py_exception option \<Rightarrow> string set \<Rightarrow> world" where
  "disk answer locked =
     \<lparr>fs = [''downloads/douyin/annie/a.mp4'' \<mapsto> 2048, ''x/y.mp4'' \<mapsto> 7,
            ''/videos/a.mp4'' \<mapsto> 5],
      dirs = {''downloads''},
      walk = (\<lambda>d. [(''downloads/douyin/annie'', [], [''gone.MKV'', ''notes.txt'', ''a.mp4''])]),
      undeletable = locked,
      s3 = (\<lambda>n file_path bucket object_name extra. answer),
      loop_time = ''1700000000'',
      trace = []\<rparr>"

section \<open>Facts about strings\<close>

lemma find_sep_decomp:
  "find_sep sep s = Some (a, b) \<Longrightarrow> s = a @ sep @ b"
proof (induction s arbitrary: a)
  case Nil
  then show ?case by (simp split: if_splits)
next
  case (Cons c cs)
  show ?case
  proof (cases "prefix sep (c # cs)")
    case True
    then obtain zs where zs: "c # cs = sep @ zs" by (auto simp: prefix_def)
    from True Cons.prems have "a = []" "b = drop (length sep) (c # cs)" by simp_all
    with zs show ?thesis by simp
  next
    case False
    with Cons.prems obtain a' where a': "find_sep sep cs = Some (a', b)" "a = c # a'"
      by auto
    with Cons.IH show ?thesis by simp
  qed
qed

lemma find_sep_complete:
  "find_sep sep (u @ sep @ v) \<noteq> None"
proof (induction u)
  case Nil
  show ?case
  proof (cases "sep @ v")
    case Nil
    then show ?thesis by simp
  next
    case (Cons a list)
    then have "prefix sep (a # list)" by (metis prefixI)
    with Cons show ?thesis by simp
  qed
next
  case (Cons c u)
  then show ?case by auto
qed

lemma str_contains_iff: "str_contains sep s \<longleftrightarrow> (\<exists>u v. s = u @ sep @ v)"
proof
  assume "str_contains sep s"
  then obtain a b where "find_sep sep s = Some (a, b)"
    by (auto simp: str_contains_def)
  then show "\<exists>u v. s = u @ sep @ v" using find_sep_decomp by blast
next
  assume "\<exists>u v. s = u @ sep @ v"
  then show "str_contains sep s"
    using find_sep_complete by (auto simp: str_contains_def)
qed

lemma find_sep_before_free:
  assumes "sep \<noteq> []" "find_sep sep s = Some (a, b)"
  shows "find_sep sep a = None"
  using assms(2)
proof (induction s arbitrary: a)
  case Nil
  with assms(1) show ?case by simp
next
  case (Cons c cs)
  show ?case
  proof (cases "prefix sep (c # cs)")
    case True
    with Cons.prems have "a = []" by simp
    with assms(1) show ?thesis by simp
  next
    case False
    with Cons.prems obtain a' where a': "find_sep sep cs = Some (a', b)" "a = c # a'"
      by auto
    from a'(1) have cs: "cs = a' @ sep @ b" by (rule find_sep_decomp)
    have "\<not> prefix sep (c # a')"
    proof
      assume "prefix sep (c # a')"
      then have "prefix sep ((c # a') @ sep @ b)" by (rule prefix_prefix)
      with cs False show False by simp
    qed
    moreover from Cons.IH a'(1) have "find_sep sep a' = None" by blast
    ultimately show ?thesis using a'(2) by simp
  qed
qed

lemma str_split_parts_free:
  assumes "sep \<noteq> []"
  shows "x \<in> set (str_split sep s) \<Longrightarrow> \<not> str_contains sep x"
proof (induction "length s" arbitrary: s rule: less_induct)
  case less
  show ?case
  proof (cases "find_sep sep s")
    case None
    with less.prems assms show ?thesis
      by (simp add: str_split.simps [of sep s] str_contains_def)
  next
    case (Some ab)
    obtain a b where ab: "ab = (a, b)" by (cases ab)
    from Some ab have found: "find_sep sep s = Some (a, b)" by simp
    from found assms have free: "find_sep sep a = None" by (rule find_sep_before_free [rotated])
    from found have "s = a @ sep @ b" by (rule find_sep_decomp)
    with assms have shorter: "length b < length s" by (cases sep) auto
    from less.prems found assms have "x = a \<or> x \<in> set (str_split sep b)"
      by (simp add: str_split.simps [of sep s])
    then show ?thesis
    proof
      assume "x = a"
      with free show ?thesis by (simp add: str_contains_def)
    next
      assume "x \<in> set (str_split sep b)"
      with less.hyps [OF shorter] show ?thesis by blast
    qed
  qed
qed

lemma str_split_nonempty: "sep \<noteq> [] \<Longrightarrow> str_split sep s \<noteq> []"
  by (simp add: str_split.simps [of sep s] split: option.splits)

lemma str_contains_dropWhile:
  "str_contains sep (dropWhile P s) \<Longrightarrow> str_contains sep s"
proof -
  assume "str_contains sep (dropWhile P s)"
  then obtain u v where "dropWhile P s = u @ sep @ v"
    by (auto simp: str_contains_iff)
  then have "s = (takeWhile P s @ u) @ sep @ v"
    by (metis append_assoc takeWhile_dropWhile_id)
  then show ?thesis unfolding str_contains_iff by blast
qed

lemma map_eq_fixed:
  "map f xs = ys \<Longrightarrow> (\<And>x. f x \<in> set ys \<Longrightarrow> f x = x) \<Longrightarrow> xs = ys"
proof (induction xs arbitrary: ys)
  case Nil
  then show ?case by simp
next
  case (Cons x xs)
  from Cons.prems(1) obtain y ys' where ys: "ys = y # ys'" "f x = y" "map f xs = ys'"
    by (cases ys) simp_all
  from ys have "f x \<in> set ys" by simp
  then have "f x = x" by (rule Cons.prems(2))
  with ys have "x = y" by simp
  moreover have "xs = ys'"
  proof (rule Cons.IH [OF ys(3)])
    fix z assume "f z \<in> set ys'"
    with ys(1) have "f z \<in> set ys" by simp
    then show "f z = z" by (rule Cons.prems(2))
  qed
  ultimately show ?case using ys(1) by simp
qed

lemma str_contains_replace:
  assumes "new \<notin> set sep" "str_contains sep (str_replace old new s)"
  shows "str_contains sep s"
proof -
  define f where "f = (\<lambda>c. if c = old then new else c)"
  from assms(2) obtain u v where uv: "map f s = u @ sep @ v"
    unfolding str_contains_iff str_replace_def f_def by blast
  define m where "m = take (length sep) (drop (length u) s)"
  have "map f m = take (length sep) (drop (length u) (map f s))"
    by (simp add: m_def take_map drop_map)
  also have "\<dots> = sep" by (simp add: uv)
  finally have fm: "map f m = sep" .
  have fixed: "f x = x" if "f x \<in> set sep" for x
    using that assms(1) by (cases "x = old") (simp_all add: f_def)
  from fm fixed have "m = sep" by (rule map_eq_fixed)
  moreover have "s = take (length u) s @ m @ drop (length sep) (drop (length u) s)"
    unfolding m_def by (simp only: append_take_drop_id)
  ultimately have "s = take (length u) s @ sep @ drop (length sep) (drop (length u) s)"
    by simp
  then show ?thesis unfolding str_contains_iff by blast
qed

lemma relative_path_marker:
  assumes "find_sep ''downloads'' file_path = Some (a, b)"
  shows "relative_path file_path
           = lstrip [slash, backslash] (hd (str_split ''downloads'' b))"
proof -
  have "str_split ''downloads'' b \<noteq> []" by (simp add: str_split_nonempty)
  then obtain x xs where "str_split ''downloads'' b = x # xs"
    by (cases "str_split ''downloads'' b") auto
  with assms show ?thesis
    by (simp add: relative_path_def str_contains_def Let_def
        str_split.simps [of "''downloads''" file_path])
qed

lemma object_name_single_marker:
  assumes "find_sep ''downloads'' file_path = Some (a, b)" "\<not> str_contains ''downloads'' b"
  shows "object_name_of file_path = claimed_object_key file_path"
proof -
  from assms(2) have "find_sep ''downloads'' b = None"
    by (cases "find_sep ''downloads'' b") (auto simp: str_contains_def)
  then have "str_split ''downloads'' b = [b]"
    by (simp add: str_split.simps [of "''downloads''" b])
  with relative_path_marker [OF assms(1)] assms(1) show ?thesis
    by (simp add: object_name_of_def claimed_object_key_def)
qed


section \<open>Facts about paths\<close>

lemma find_sep_char:
  "find_sep [c] s =
     (if c \<in> set s
      then Some (takeWhile (\<lambda>x. x \<noteq> c) s, tl (dropWhile (\<lambda>x. x \<noteq> c) s))
      else None)"
  by (induction s) auto

lemma takeWhile_not_mem:
  "c \<notin> set xs \<Longrightarrow> takeWhile (\<lambda>x. x \<noteq> c) (xs @ ys) = xs @ takeWhile (\<lambda>x. x \<noteq> c) ys"
  by (induction xs) auto

lemma last_filter_keep:
  "xs \<noteq> [] \<Longrightarrow> P (last xs) \<Longrightarrow> filter P xs \<noteq> [] \<and> last (filter P xs) = last xs"
  by (induction xs) (auto split: if_splits)

lemma last_str_split_char:
  "last (str_split [c] s) = rev (takeWhile (\<lambda>x. x \<noteq> c) (rev s))"
proof (induction "length s" arbitrary: s rule: less_induct)
  case less
  show ?case
  proof (cases "c \<in> set s")
    case False
    then have whole: "str_split [c] s = [s]"
      by (simp add: str_split.simps [of "[c]" s] find_sep_char)
    from False have same: "takeWhile (\<lambda>x. x \<noteq> c) (rev s) = rev s"
      using takeWhile_not_mem [of c "rev s" "[]"] by simp
    show ?thesis unfolding whole same by simp
  next
    case True
    define a where "a = takeWhile (\<lambda>x. x \<noteq> c) s"
    define b where "b = tl (dropWhile (\<lambda>x. x \<noteq> c) s)"
    from True have "dropWhile (\<lambda>x. x \<noteq> c) s \<noteq> []" by simp
    moreover from this have "hd (dropWhile (\<lambda>x. x \<noteq> c) s) = c"
      using hd_dropWhile [of "\<lambda>x. x \<noteq> c" s] by simp
    ultimately have "dropWhile (\<lambda>x. x \<noteq> c) s = c # b"
      unfolding b_def by (cases "dropWhile (\<lambda>x. x \<noteq> c) s") simp_all
    then have s: "s = a @ c # b"
      unfolding a_def by (metis takeWhile_dropWhile_id)
    then have shorter: "length b < length s" by simp
    have nonempty: "str_split [c] b \<noteq> []"
      by (simp add: str_split.simps [of "[c]" b] split: option.splits)
    from True have "str_split [c] s = a # str_split [c] b"
      by (simp add: str_split.simps [of "[c]" s] find_sep_char a_def b_def)
    with nonempty have "last (str_split [c] s) = last (str_split [c] b)" by simp
    also have "\<dots> = rev (takeWhile (\<lambda>x. x \<noteq> c) (rev b))"
      by (rule less.hyps [OF shorter])
    also have "takeWhile (\<lambda>x. x \<noteq> c) (rev b) = takeWhile (\<lambda>x. x \<noteq> c) (rev s)"
      unfolding s by (simp add: takeWhile_tail)
    finally show ?thesis .
  qed
qed

lemma str_split_leading_slash:
  "str_split ''/'' (slash # p) = [] # str_split ''/'' p"
  by (simp add: str_split.simps [of "''/''" "slash # p"])

lemma path_tail_whole:
  "path_tail p = filter (\<lambda>x. x \<noteq> [] \<and> x \<noteq> ''.'') (str_split ''/'' p)"
proof (cases p)
  case Nil
  then show ?thesis by (simp add: path_tail_def path_root_def)
next
  case (Cons c p')
  show ?thesis
  proof (cases "c = slash")
    case False
    with Cons show ?thesis by (simp add: path_tail_def path_root_def)
  next
    case True
    show ?thesis
    proof (cases "path_root p = ''/''")
      case one: True
      with Cons True show ?thesis
        by (simp add: path_tail_def str_split_leading_slash)
    next
      case False
      with Cons True have root: "path_root p = ''//''"
        by (simp add: path_root_def split: if_splits)
      with Cons True obtain p'' where "p' = slash # p''"
        by (cases p') (auto simp: path_root_def split: if_splits)
      with Cons True root show ?thesis
        by (simp add: path_tail_def str_split_leading_slash)
    qed
  qed
qed

lemma path_name_last_component:
  assumes "n \<noteq> []" "n \<noteq> ''.''" "slash \<notin> set n" "d = [] \<or> last d = slash"
  shows "path_name (d @ n) = n"
proof -
  let ?xs = "str_split ''/'' (d @ n)"
  have nonempty: "?xs \<noteq> []"
    by (simp add: str_split.simps [of "''/''" "d @ n"] split: option.splits)
  have "takeWhile (\<lambda>x. x \<noteq> slash) (rev n @ rev d) = rev n"
  proof (cases d rule: rev_cases)
    case Nil
    with assms(3) show ?thesis using takeWhile_not_mem [of slash "rev n" "[]"] by auto
  next
    case (snoc d' c)
    with assms(4) have "c = slash" by simp
    with snoc assms(3) show ?thesis by (simp add: takeWhile_not_mem)
  qed
  then have "last ?xs = n" by (simp add: last_str_split_char)
  with nonempty assms(1,2) show ?thesis
    using last_filter_keep [of ?xs "\<lambda>x. x \<noteq> [] \<and> x \<noteq> ''.''"]
    by (simp add: path_name_def path_tail_whole)
qed

lemma path_suffix_extension:
  assumes "stem \<noteq> []" "slash \<notin> set stem" "ext \<noteq> []" "dot \<notin> set ext" "slash \<notin> set ext"
    and "d = [] \<or> last d = slash"
  shows "path_suffix (d @ stem @ ''.'' @ ext) = ''.'' @ ext"
proof -
  let ?n = "stem @ ''.'' @ ext"
  from assms(1) have "?n \<noteq> ''.''" by (cases stem) simp_all
  with assms have name: "path_name (d @ ?n) = ?n"
    by (intro path_name_last_component) simp_all
  from assms(4) have "takeWhile (\<lambda>x. x \<noteq> dot) (rev ext @ dot # rev stem) = rev ext"
    by (simp add: takeWhile_not_mem)
  then have "rfind dot ?n = int (length stem)"
    by (simp add: rfind_def)
  with name assms(1,3) show ?thesis
    by (simp add: path_suffix_def Let_def)
qed

lemma lower_char_eq_iff:
  "lower_char c = dot \<longleftrightarrow> c = dot" "lower_char c = slash \<longleftrightarrow> c = slash"
  "dot = lower_char c \<longleftrightarrow> c = dot" "slash = lower_char c \<longleftrightarrow> c = slash"
  by (auto simp: lower_char_def)

lemma lower_char_idem: "lower_char (lower_char c) = lower_char c"
  by (auto simp: lower_char_def)

lemma lower_idem: "lower (lower s) = lower s"
  by (simp add: lower_def lower_char_idem)

lemma lower_keeps:
  "dot \<notin> set (lower s) \<longleftrightarrow> dot \<notin> set s" "slash \<notin> set (lower s) \<longleftrightarrow> slash \<notin> set s"
  "lower s = [] \<longleftrightarrow> s = []"
  by (auto simp: lower_def lower_char_eq_iff image_iff)


lemma path_suffix_none:
  assumes "slash \<notin> set n" "d = [] \<or> last d = slash"
  shows "n \<noteq> [] \<Longrightarrow> dot \<notin> set n \<Longrightarrow> path_suffix (d @ n) = []"
    and "n \<noteq> [] \<Longrightarrow> dot \<notin> set n \<Longrightarrow> path_suffix (d @ ''.'' @ n) = []"
    and "n \<noteq> [] \<Longrightarrow> path_suffix (d @ n @ ''.'') = []"
proof -
  show "path_suffix (d @ n) = []" if "n \<noteq> []" "dot \<notin> set n"
  proof -
    from that have "n \<noteq> ''.''" by auto
    with assms that have "path_name (d @ n) = n"
      by (intro path_name_last_component) simp_all
    with that show ?thesis by (simp add: path_suffix_def rfind_def Let_def)
  qed
  show "path_suffix (d @ ''.'' @ n) = []" if "n \<noteq> []" "dot \<notin> set n"
  proof -
    from that have "''.'' @ n \<noteq> ''.''" by simp
    with assms have name: "path_name (d @ ''.'' @ n) = ''.'' @ n"
      by (intro path_name_last_component) simp_all
    from that(2) have "takeWhile (\<lambda>x. x \<noteq> dot) (rev n @ [dot]) = rev n"
      by (simp add: takeWhile_not_mem)
    then have "rfind dot (''.'' @ n) = 0" by (simp add: rfind_def)
    with name show ?thesis by (simp add: path_suffix_def Let_def)
  qed
  show "path_suffix (d @ n @ ''.'') = []" if "n \<noteq> []"
  proof -
    from that have "n @ ''.'' \<noteq> ''.''" by simp
    with assms have name: "path_name (d @ n @ ''.'') = n @ ''.''"
      by (intro path_name_last_component) simp_all
    have "rfind dot (n @ ''.'') = int (length n)" by (simp add: rfind_def)
    with name show ?thesis by (simp add: path_suffix_def Let_def)
  qed
qed


section \<open>Effects of the building blocks\<close>

lemma logger_fields [simp]:
  "uploads_so_far (logger lvl msg args w) = uploads_so_far w"
  "removals (logger lvl msg args w) = removals w"
  "s3 (logger lvl msg args w) = s3 w"
  "fs (logger lvl msg args w) = fs w"
  "undeletable (logger lvl msg args w) = undeletable w"
  "loop_time (logger lvl msg args w) = loop_time w"
  "os_path_exists (logger lvl msg args w) p = os_path_exists w p"
  by (simp_all add: uploads_so_far_def removals_def logger_def emit_def os_path_exists_def)

lemma emit_fields [simp]:
  "removals (emit ev w) = removals w @ removed_path ev"
  "fs (emit ev w) = fs w"
  "undeletable (emit ev w) = undeletable w"
  by (simp_all add: removals_def emit_def)

lemma removals_fs_update [simp]: "removals (w\<lparr>fs := f\<rparr>) = removals w"
  by (simp add: removals_def)

lemma upload_file_fields:
  assumes "upload_file self file_path object_name metadata content_type w = (r, w')"
  shows "fs w' = fs w" "undeletable w' = undeletable w" "removals w' = removals w"
  using assms
  by (auto simp: upload_file_def Let_def s3_upload_file_def
      split: if_splits prod.splits sum.splits option.splits py_exception.splits)

lemma upload_file_returns:
  "\<exists>d w'. upload_file self file_path object_name metadata content_type w = (Inr d, w')"
  by (auto simp: upload_file_def Let_def s3_upload_file_def os_path_exists_def os_path_getsize_def
      split: if_splits prod.splits sum.splits option.splits py_exception.splits)

lemma upload_file_no_deleted_key:
  "upload_file self file_path object_name metadata content_type w = (Inr d, w') \<Longrightarrow>
   d ''local_file_deleted'' = None"
  by (auto simp: upload_file_def Let_def s3_upload_file_def
      split: if_splits prod.splits sum.splits option.splits py_exception.splits)

lemma attempts_logger [simp]:
  "attempts (logger lvl msg args w) = attempts w @ attempted (Log lvl msg args)"
  by (simp add: attempts_def logger_def emit_def)

lemma attempts_emit [simp]:
  "attempts (emit ev w) = attempts w @ attempted ev"
  by (simp add: attempts_def emit_def)

lemma attempts_fs_update [simp]: "attempts (w\<lparr>fs := f\<rparr>) = attempts w"
  by (simp add: attempts_def)

lemma upload_file_attempts:
  assumes "os_path_exists w file_path"
    and "upload_file self file_path object_name metadata content_type w = (r, w')"
  shows "attempts w' = attempts w"
  using assms
  by (auto simp: upload_file_def Let_def s3_upload_file_def
      split: if_splits prod.splits sum.splits option.splits py_exception.splits)

lemma trace_logger: "trace (logger lvl msg args w) = trace w @ [Log lvl msg args]"
  by (simp add: logger_def emit_def)

lemma client_calls_logger [simp]:
  "client_calls (logger lvl msg args w) = client_calls w"
  by (simp add: client_calls_def logger_def emit_def)

lemma client_calls_emit [simp]:
  "client_calls (emit ev w) = client_calls w @ (if is_upload ev then [ev] else [])"
  by (simp add: client_calls_def emit_def)

lemma client_calls_fs_update [simp]: "client_calls (w\<lparr>fs := f\<rparr>) = client_calls w"
  by (simp add: client_calls_def)

lemma video_logger [simp]:
  "video_extra_args file_path (logger lvl msg args w) = video_extra_args file_path w"
  "video_upload_call uploader file_path (logger lvl msg args w) = video_upload_call uploader file_path w"
  "upload_accepted uploader file_path (logger lvl msg args w) = upload_accepted uploader file_path w"
  by (simp_all add: video_extra_args_def video_upload_call_def upload_accepted_def
      video_metadata_def)

lemma get_content_type_nonempty: "get_content_type file_path \<noteq> []"
  by (auto simp: get_content_type_def content_types_def Let_def split: if_splits)

lemma upload_file_effect:
  assumes "os_path_exists w file_path" "md \<noteq> []"
  shows "\<exists>d w'. upload_file self file_path (Some name) (Some md) None w = (Inr d, w') \<and>
     truthy (d ''success'')
       = (s3 w (uploads_so_far w) file_path (bucket_name self) name
            \<lparr>ContentType = Some (get_content_type file_path), Metadata = Some md\<rparr> = None) \<and>
     client_calls w'
       = client_calls w @
           [S3Upload file_path (bucket_name self) name
              \<lparr>ContentType = Some (get_content_type file_path), Metadata = Some md\<rparr>]"
proof -
  from assms(1) obtain size where size: "fs w file_path = Some size"
    by (auto simp: os_path_exists_def)
  from assms(2) have args: "upload_arguments file_path (Some name) (Some md) None
      = (name, \<lparr>ContentType = Some (get_content_type file_path), Metadata = Some md\<rparr>)"
    by (simp add: upload_arguments_def get_content_type_nonempty)
  show ?thesis
  proof (cases "s3 w (uploads_so_far w) file_path (bucket_name self) name
            \<lparr>ContentType = Some (get_content_type file_path), Metadata = Some md\<rparr>")
    case None
    with assms(1) size args show ?thesis
      by (simp add: upload_file_def os_path_getsize_def s3_upload_file_def Let_def truthy_def
          split: option.splits)
  next
    case (Some e)
    with assms(1) size args show ?thesis
      by (cases e) (simp_all add: upload_file_def os_path_getsize_def s3_upload_file_def
          Let_def truthy_def)
  qed
qed

lemma upload_single_file_turn:
  "\<exists>w'. upload_single_file uploader file_path (fst (platform_anchor file_path))
            (snd (platform_anchor file_path)) delete_after w
          = (Inr (upload_accepted uploader file_path w), w') \<and>
        attempts w' = attempts w @ [file_path] \<and>
        client_calls w'
          = client_calls w @
              (if os_path_exists w file_path then [video_upload_call uploader file_path w]
               else [])"
proof (cases "os_path_exists w file_path")
  case False
  then show ?thesis by (simp add: upload_single_file_def upload_accepted_def)
next
  case True
  let ?pl = "fst (platform_anchor file_path)" and ?an = "snd (platform_anchor file_path)"
  let ?w1 = "logger INFO ''Uploading {file_path}...'' [VStr file_path] w"
  let ?md = "video_metadata ?pl ?an ?w1"
  from True have ex1: "os_path_exists ?w1 file_path" by simp
  have md: "?md \<noteq> []" by (simp add: video_metadata_def)
  from upload_file_effect [OF ex1 md, of uploader "object_name_of file_path"]
  obtain d w2 where up:
    "upload_file uploader file_path (Some (object_name_of file_path)) (Some ?md) None ?w1
       = (Inr d, w2)"
    and ok: "truthy (d ''success'') = upload_accepted uploader file_path w"
    and calls: "client_calls w2 = client_calls w @ [video_upload_call uploader file_path w]"
    using True
    by (auto simp: upload_accepted_def video_upload_call_def video_extra_args_def
        video_metadata_def)
  from upload_file_attempts [OF ex1 up] have att: "attempts w2 = attempts w @ [file_path]"
    by simp
  from True ex1 up ok calls att show ?thesis
    by (auto simp: upload_single_file_def upload_video_to_r2_def upload_file_async_def Let_def
        os_remove_def truthy_def split: option.splits)
qed

lemma upload_loop_turns:
  "\<exists>sc fc w'. upload_loop uploader delete_after files success_count fail_count w
       = (Inr (sc, fc), w') \<and>
     sc = success_count +
            length (filter (\<lambda>(f, wi). upload_accepted uploader f wi)
                      (zip files (turn_worlds uploader delete_after files w))) \<and>
     fc = fail_count +
            length (filter (\<lambda>(f, wi). \<not> upload_accepted uploader f wi)
                      (zip files (turn_worlds uploader delete_after files w))) \<and>
     attempts w' = attempts w @ files \<and>
     client_calls w'
       = client_calls w @
           map (\<lambda>(f, wi). video_upload_call uploader f wi)
             (filter (\<lambda>(f, wi). os_path_exists wi f)
                (zip files (turn_worlds uploader delete_after files w)))"
proof (induction files arbitrary: success_count fail_count w)
  case Nil
  then show ?case by simp
next
  case (Cons file_path rest)
  let ?pl = "fst (platform_anchor file_path)" and ?an = "snd (platform_anchor file_path)"
  from upload_single_file_turn [of uploader file_path delete_after w]
  obtain w1 where one:
    "upload_single_file uploader file_path ?pl ?an delete_after w
       = (Inr (upload_accepted uploader file_path w), w1)"
    "attempts w1 = attempts w @ [file_path]"
    "client_calls w1
       = client_calls w @
           (if os_path_exists w file_path then [video_upload_call uploader file_path w] else [])"
    by blast
  then have next_world:
    "snd (upload_single_file uploader file_path ?pl ?an delete_after w) = w1"
    by simp
  have step: "upload_loop uploader delete_after (file_path # rest) success_count fail_count w
      = (if upload_accepted uploader file_path w
         then upload_loop uploader delete_after rest (success_count + 1) fail_count w1
         else upload_loop uploader delete_after rest success_count (fail_count + 1) w1)"
    using one(1) by (cases "platform_anchor file_path") simp
  show ?case
  proof (cases "upload_accepted uploader file_path w")
    case True
    from Cons.IH [of "success_count + 1" fail_count w1]
    obtain sc fc w' where rest:
      "upload_loop uploader delete_after rest (success_count + 1) fail_count w1 = (Inr (sc, fc), w')"
      "sc = success_count + 1 +
            length (filter (\<lambda>(f, wi). upload_accepted uploader f wi)
                      (zip rest (turn_worlds uploader delete_after rest w1)))"
      "fc = fail_count +
            length (filter (\<lambda>(f, wi). \<not> upload_accepted uploader f wi)
                      (zip rest (turn_worlds uploader delete_after rest w1)))"
      "attempts w' = attempts w1 @ rest"
      "client_calls w'
         = client_calls w1 @
             map (\<lambda>(f, wi). video_upload_call uploader f wi)
               (filter (\<lambda>(f, wi). os_path_exists wi f)
                  (zip rest (turn_worlds uploader delete_after rest w1)))"
      by blast
    from True have "os_path_exists w file_path" by (simp add: upload_accepted_def)
    with True one(2,3) rest next_world step show ?thesis
      by (simp del: upload_loop.simps)
  next
    case False
    from Cons.IH [of success_count "fail_count + 1" w1]
    obtain sc fc w' where rest:
      "upload_loop uploader delete_after rest success_count (fail_count + 1) w1 = (Inr (sc, fc), w')"
      "sc = success_count +
            length (filter (\<lambda>(f, wi). upload_accepted uploader f wi)
                      (zip rest (turn_worlds uploader delete_after rest w1)))"
      "fc = fail_count + 1 +
            length (filter (\<lambda>(f, wi). \<not> upload_accepted uploader f wi)
                      (zip rest (turn_worlds uploader delete_after rest w1)))"
      "attempts w' = attempts w1 @ rest"
      "client_calls w'
         = client_calls w1 @
             map (\<lambda>(f, wi). video_upload_call uploader f wi)
               (filter (\<lambda>(f, wi). os_path_exists wi f)
                  (zip rest (turn_worlds uploader delete_after rest w1)))"
      by blast
    with False one(2,3) next_world step show ?thesis
      by (auto simp del: upload_loop.simps)
  qed
qed


section \<open>Results of \<^verbatim>\<open>upload_file\<close>\<close>

text \<open>
  Claim C9. When the local file does not exist, \<^verbatim>\<open>upload_file\<close> returns exactly the
  dictionary with \<^verbatim>\<open>success\<close> false and \<^verbatim>\<open>error\<close> "File not found", which has no
  \<^verbatim>\<open>object_name\<close>, \<^verbatim>\<open>size\<close> or \<^verbatim>\<open>url\<close>; when the file exists, every failure
  result holds the object name under \<^verbatim>\<open>object_name\<close>.
\<close>

theorem upload_file_not_found_result:
  "(\<not> os_path_exists w file_path \<longrightarrow>
      (\<exists>d w'. upload_file self file_path object_name metadata content_type w = (Inr d, w') \<and>
         d = [''success'' \<mapsto> VBool False, ''error'' \<mapsto> VStr ''File not found''] \<and>
         d ''object_name'' = None \<and> d ''size'' = None \<and> d ''url'' = None)) \<and>
   (os_path_exists w file_path \<longrightarrow>
      (\<exists>d w'. upload_file self file_path object_name metadata content_type w = (Inr d, w') \<and>
         (\<not> truthy (d ''success'') \<longrightarrow>
            d ''object_name''
              = Some (VStr (fst (upload_arguments file_path object_name metadata content_type))))))"
proof (cases "fs w file_path")
  case None
  then show ?thesis by (simp add: upload_file_def os_path_exists_def)
next
  case (Some size)
  obtain name extra where args:
    "upload_arguments file_path object_name metadata content_type = (name, extra)"
    by (cases "upload_arguments file_path object_name metadata content_type")
  show ?thesis
  proof (cases "s3 w (uploads_so_far w) file_path (bucket_name self) name extra")
    case None
    with Some args show ?thesis
      by (simp add: upload_file_def os_path_exists_def os_path_getsize_def s3_upload_file_def
          Let_def truthy_def split: option.splits)
  next
    case (Some e)
    with \<open>fs w file_path = Some size\<close> args show ?thesis
      by (cases e) (simp_all add: upload_file_def os_path_exists_def os_path_getsize_def
          s3_upload_file_def Let_def)
  qed
qed

theorem upload_file_not_found_result_witness:
  "\<not> os_path_exists (disk None {}) ''downloads/missing.mp4'' \<and>
   fst (upload_file cdn_uploader ''downloads/missing.mp4'' None None None (disk None {}))
     = Inr [''success'' \<mapsto> VBool False, ''error'' \<mapsto> VStr ''File not found''] \<and>
   os_path_exists (disk (Some (OtherException ''timeout'')) {}) ''x/y.mp4'' \<and>
   (\<exists>d w'. upload_file cdn_uploader ''x/y.mp4'' None None None
              (disk (Some (OtherException ''timeout'')) {}) = (Inr d, w') \<and>
           d ''object_name'' = Some (VStr ''y.mp4''))"
proof -
  have missing: "\<not> os_path_exists (disk None {}) ''downloads/missing.mp4''"
    by (simp add: os_path_exists_def disk_def)
  have present: "os_path_exists (disk (Some (OtherException ''timeout'')) {}) ''x/y.mp4''"
    by (simp add: os_path_exists_def disk_def)
  have name: "fst (upload_arguments ''x/y.mp4'' None None None) = ''y.mp4''"
    by (simp add: upload_arguments_def os_path_basename_def Let_def)
  have failed: "\<not> truthy (d ''success'')"
    if "upload_file cdn_uploader ''x/y.mp4'' None None None
          (disk (Some (OtherException ''timeout'')) {}) = (Inr d, w')" for d w'
    using that
    by (auto simp: upload_file_def os_path_exists_def os_path_getsize_def s3_upload_file_def
        disk_def Let_def truthy_def logger_def emit_def
        split: prod.splits)
  from upload_file_not_found_result
    [of "disk None {}" "''downloads/missing.mp4''" cdn_uploader None None None] missing
  have first: "fst (upload_file cdn_uploader ''downloads/missing.mp4'' None None None (disk None {}))
     = Inr [''success'' \<mapsto> VBool False, ''error'' \<mapsto> VStr ''File not found'']"
    by auto
  from upload_file_not_found_result
    [of "disk (Some (OtherException ''timeout'')) {}" "''x/y.mp4''" cdn_uploader None None None]
    present failed name
  have second: "\<exists>d w'. upload_file cdn_uploader ''x/y.mp4'' None None None
              (disk (Some (OtherException ''timeout'')) {}) = (Inr d, w') \<and>
           d ''object_name'' = Some (VStr ''y.mp4'')"
    by auto
  from missing first present second show ?thesis by blast
qed


text \<open>
  Claim C3. \<^verbatim>\<open>upload_file\<close> never raises: it returns a dictionary in every case. When
  the file does not exist the dictionary reports failure; when the storage client raises
  a \<^verbatim>\<open>ClientError\<close> the \<^verbatim>\<open>error\<close> entry is the provider's code and message (with
  the fallbacks \<^verbatim>\<open>Unknown\<close> and \<^verbatim>\<open>str(e)\<close> for a missing entry); when it raises
  any other exception the \<^verbatim>\<open>error\<close> entry is that exception's text.
\<close>

theorem upload_file_never_raises:
  assumes args: "upload_arguments file_path object_name metadata content_type = (name, extra)"
  shows "\<exists>d w'. upload_file self file_path object_name metadata content_type w = (Inr d, w') \<and>
     (\<not> os_path_exists w file_path \<longrightarrow> d ''success'' = Some (VBool False)) \<and>
     (\<forall>code message text.
        os_path_exists w file_path \<and>
        s3 w (uploads_so_far w) file_path (bucket_name self) name extra
          = Some (ClientError code message text) \<longrightarrow>
        d ''success'' = Some (VBool False) \<and>
        d ''error'' = Some (VStr ((case code of None \<Rightarrow> ''Unknown'' | Some c \<Rightarrow> c) @ '': '' @
                                  (case message of None \<Rightarrow> text | Some m \<Rightarrow> m)))) \<and>
     (\<forall>text.
        os_path_exists w file_path \<and>
        s3 w (uploads_so_far w) file_path (bucket_name self) name extra
          = Some (OtherException text) \<longrightarrow>
        d ''success'' = Some (VBool False) \<and> d ''error'' = Some (VStr text))"
proof (cases "fs w file_path")
  case None
  then show ?thesis by (simp add: upload_file_def os_path_exists_def)
next
  case (Some size)
  show ?thesis
  proof (cases "s3 w (uploads_so_far w) file_path (bucket_name self) name extra")
    case None
    with Some args show ?thesis
      by (simp add: upload_file_def os_path_exists_def os_path_getsize_def s3_upload_file_def
          Let_def split: option.splits)
  next
    case (Some e)
    with \<open>fs w file_path = Some size\<close> args show ?thesis
      by (cases e) (simp_all add: upload_file_def os_path_exists_def os_path_getsize_def
          s3_upload_file_def Let_def)
  qed
qed

theorem upload_file_never_raises_witness:
  "upload_arguments ''x/y.mp4'' None None None
     = (''y.mp4'', \<lparr>ContentType = Some ''video/mp4'', Metadata = None\<rparr>) \<and>
   (\<exists>d w'. upload_file cdn_uploader ''x/y.mp4'' None None None
              (disk (Some (ClientError (Some ''AccessDenied'') (Some ''Access Denied'') ''boom'')) {})
            = (Inr d, w') \<and>
           d ''success'' = Some (VBool False) \<and>
           d ''error'' = Some (VStr ''AccessDenied: Access Denied''))"
proof -
  let ?w = "disk (Some (ClientError (Some ''AccessDenied'') (Some ''Access Denied'') ''boom'')) {}"
  have args: "upload_arguments ''x/y.mp4'' None None None
     = (''y.mp4'', \<lparr>ContentType = Some ''video/mp4'', Metadata = None\<rparr>)"
    by code_simp
  have present: "os_path_exists ?w ''x/y.mp4''"
    by (simp add: os_path_exists_def disk_def)
  have answer: "s3 ?w (uploads_so_far ?w) ''x/y.mp4'' (bucket_name cdn_uploader) ''y.mp4''
      \<lparr>ContentType = Some ''video/mp4'', Metadata = None\<rparr>
    = Some (ClientError (Some ''AccessDenied'') (Some ''Access Denied'') ''boom'')"
    by (simp add: disk_def)
  from upload_file_never_raises [OF args, of cdn_uploader ?w] present answer
  have "\<exists>d w'. upload_file cdn_uploader ''x/y.mp4'' None None None ?w = (Inr d, w') \<and>
           d ''success'' = Some (VBool False) \<and>
           d ''error'' = Some (VStr ''AccessDenied: Access Denied'')"
    by fastforce
  with args show ?thesis by blast
qed

text \<open>
  Claim C8, as stated, fails: only the prefix is stripped, so an object key that starts
  with a slash, as \<^verbatim>\<open>upload_video_to_r2\<close> derives it from an absolute path without
  the marker, is joined by two slashes.
\<close>

theorem public_url_leading_slash_counterexample:
  "returned (upload_file cdn_uploader ''/videos/a.mp4'' (Some (object_name_of ''/videos/a.mp4''))
              None None (disk None {})) ''success'' = Some (VBool True) \<and>
   returned (upload_file cdn_uploader ''/videos/a.mp4'' (Some (object_name_of ''/videos/a.mp4''))
              None None (disk None {})) ''url''
     = Some (VStr ''https://cdn.example.com//videos/a.mp4'') \<and>
   one_slash_join ''https://cdn.example.com/'' (object_name_of ''/videos/a.mp4'')
     = ''https://cdn.example.com/videos/a.mp4'' \<and>
   returned (upload_file cdn_uploader ''/videos/a.mp4'' (Some (object_name_of ''/videos/a.mp4''))
              None None (disk None {})) ''url''
     \<noteq> Some (VStr (one_slash_join ''https://cdn.example.com/''
                        (object_name_of ''/videos/a.mp4'')))"
proof -
  have key: "object_name_of ''/videos/a.mp4'' = ''/videos/a.mp4''" by code_simp
  have join: "one_slash_join ''https://cdn.example.com/'' ''/videos/a.mp4''
     = ''https://cdn.example.com/videos/a.mp4''"
    by (simp add: one_slash_join_def rstrip_def lstrip_def)
  have "returned (upload_file cdn_uploader ''/videos/a.mp4'' (Some ''/videos/a.mp4'')
              None None (disk None {})) ''success'' = Some (VBool True) \<and>
        returned (upload_file cdn_uploader ''/videos/a.mp4'' (Some ''/videos/a.mp4'')
              None None (disk None {})) ''url''
          = Some (VStr ''https://cdn.example.com//videos/a.mp4'')"
    by (simp add: returned_def upload_file_def os_path_exists_def os_path_getsize_def
        s3_upload_file_def disk_def Let_def logger_def emit_def uploads_so_far_def
        cdn_uploader_def rstrip_def upload_arguments_def)
  with key join show ?thesis by simp
qed

text \<open>
  Claim C8, amended. A successful \<^verbatim>\<open>upload_file\<close> on an uploader with a non-empty
  \<^verbatim>\<open>public_url\<close> returns under \<^verbatim>\<open>url\<close> the prefix without its trailing slashes,
  one slash, and the object name as it is; the stripped prefix does not end with a
  slash, and the result is the join by exactly one slash precisely when the object name
  does not start with a slash.
\<close>

theorem upload_file_public_url:
  assumes "public_url self = Some p" and "p \<noteq> []"
    and "upload_file self file_path object_name metadata content_type w = (Inr d, w')"
    and "truthy (d ''success'')"
  shows "d ''object_name''
           = Some (VStr (fst (upload_arguments file_path object_name metadata content_type))) \<and>
         d ''url''
           = Some (VStr (rstrip ''/'' p @ ''/'' @
                         fst (upload_arguments file_path object_name metadata content_type))) \<and>
         (rstrip ''/'' p = [] \<or> last (rstrip ''/'' p) \<noteq> slash) \<and>
         (d ''url''
            = Some (VStr (one_slash_join p
                            (fst (upload_arguments file_path object_name metadata content_type))))
          \<longleftrightarrow>
            fst (upload_arguments file_path object_name metadata content_type) = [] \<or>
            hd (fst (upload_arguments file_path object_name metadata content_type)) \<noteq> slash)"
proof -
  let ?key = "fst (upload_arguments file_path object_name metadata content_type)"
  have prefix_side: "rstrip ''/'' p = [] \<or> last (rstrip ''/'' p) \<noteq> slash"
  proof (cases "dropWhile (\<lambda>c. c \<in> set ''/'') (rev p)")
    case Nil
    then show ?thesis by (simp add: rstrip_def)
  next
    case (Cons c cs)
    then have "c \<noteq> slash"
      using hd_dropWhile [of "\<lambda>c. c \<in> set ''/''" "rev p"] by auto
    with Cons show ?thesis by (simp add: rstrip_def)
  qed
  from assms have fields:
    "d ''object_name'' = Some (VStr ?key)"
    "d ''url'' = Some (VStr (rstrip ''/'' p @ ''/'' @ ?key))"
    by (auto simp: upload_file_def Let_def s3_upload_file_def truthy_def
        split: if_splits prod.splits sum.splits option.splits py_exception.splits)
  have "lstrip ''/'' ?key = ?key \<longleftrightarrow> ?key = [] \<or> hd ?key \<noteq> slash"
    unfolding lstrip_def by (simp add: dropWhile_eq_self_iff)
  then have key_side:
    "d ''url'' = Some (VStr (one_slash_join p ?key)) \<longleftrightarrow> ?key = [] \<or> hd ?key \<noteq> slash"
    using fields(2) by (auto simp: one_slash_join_def)
  from fields prefix_side key_side show ?thesis by blast
qed

theorem upload_file_public_url_witness:
  "public_url cdn_uploader = Some ''https://cdn.example.com/'' \<and>
   (\<exists>d w'. upload_file cdn_uploader ''x/y.mp4'' (Some ''x/y.mp4'') None None (disk None {})
              = (Inr d, w') \<and>
           truthy (d ''success'') \<and>
           d ''url'' = Some (VStr ''https://cdn.example.com/x/y.mp4'') \<and>
           d ''url'' = Some (VStr (one_slash_join ''https://cdn.example.com/'' ''x/y.mp4'')))"
proof -
  have pub: "public_url cdn_uploader = Some ''https://cdn.example.com/''"
    by (simp add: cdn_uploader_def)
  have nonempty: "''https://cdn.example.com/'' \<noteq> []" by simp
  obtain d w' where up:
    "upload_file cdn_uploader ''x/y.mp4'' (Some ''x/y.mp4'') None None (disk None {}) = (Inr d, w')"
    using upload_file_returns by blast
  have ok: "truthy (d ''success'')"
    using up
    by (auto simp: upload_file_def os_path_exists_def os_path_getsize_def s3_upload_file_def
        disk_def Let_def truthy_def logger_def emit_def uploads_so_far_def cdn_uploader_def
        split: prod.splits)
  have name: "fst (upload_arguments ''x/y.mp4'' (Some ''x/y.mp4'') None None) = ''x/y.mp4''"
    by (simp add: upload_arguments_def Let_def)
  have strip: "rstrip ''/'' ''https://cdn.example.com/'' = ''https://cdn.example.com''"
    by (simp add: rstrip_def)
  from upload_file_public_url [OF pub nonempty up ok] name strip
  have "d ''url'' = Some (VStr ''https://cdn.example.com/x/y.mp4'') \<and>
        d ''url'' = Some (VStr (one_slash_join ''https://cdn.example.com/'' ''x/y.mp4''))"
    by (simp add: one_slash_join_def lstrip_def)
  with pub up ok show ?thesis by blast
qed


section \<open>Deleting the local file\<close>

text \<open>
  Claim C5. With \<^verbatim>\<open>delete_after_upload\<close> true, \<^verbatim>\<open>upload_video_to_r2\<close> returns the
  result of its upload step, and: when that result reports success, \<^verbatim>\<open>os.remove\<close> is
  called once on the file and the result gains \<^verbatim>\<open>local_file_deleted\<close>, true with the
  file gone when the removal succeeds, false with the file system unchanged when it
  fails, the \<^verbatim>\<open>success\<close> entry being kept either way; when the result reports
  failure, \<^verbatim>\<open>os.remove\<close> is not called and the file system is unchanged.
\<close>

theorem delete_after_upload:
  "\<exists>result w1.
     upload_file_async uploader file_path (Some (object_name_of file_path))
       (Some (video_metadata platform anchor_name w)) None w = (Inr result, w1) \<and>
     (if truthy (result ''success'') then
        (if file_path \<in> undeletable w then
           \<exists>w2. upload_video_to_r2 uploader file_path platform anchor_name True w
                  = (Inr (result(''local_file_deleted'' \<mapsto> VBool False)), w2) \<and>
                fs w2 = fs w \<and> removals w2 = removals w @ [file_path]
         else
           \<exists>w2. upload_video_to_r2 uploader file_path platform anchor_name True w
                  = (Inr (result(''local_file_deleted'' \<mapsto> VBool True)), w2) \<and>
                fs w2 = (fs w)(file_path := None) \<and> removals w2 = removals w @ [file_path])
      else
        \<exists>w2. upload_video_to_r2 uploader file_path platform anchor_name True w = (Inr result, w2) \<and>
             result ''local_file_deleted'' = None \<and>
             fs w2 = fs w \<and> removals w2 = removals w)"
proof -
  let ?up = "upload_file uploader file_path (Some (object_name_of file_path))
       (Some (video_metadata platform anchor_name w)) None w"
  obtain result w1 where up: "?up = (Inr result, w1)"
    using upload_file_returns by blast
  note keep = upload_file_fields [OF up]
  show ?thesis
  proof (cases "os_path_exists w file_path")
    case False
    then have "result = [''success'' \<mapsto> VBool False, ''error'' \<mapsto> VStr ''File not found'']"
      using up by (auto simp: upload_file_def)
    with False up show ?thesis
      by (simp add: upload_file_async_def upload_video_to_r2_def truthy_def)
  next
    case True
    then have ex1: "fs w1 file_path \<noteq> None"
      using keep by (simp add: os_path_exists_def)
    show ?thesis
    proof (cases "truthy (result ''success'')")
      case ok: True
      with True up keep ex1 show ?thesis
        by (auto simp: upload_file_async_def upload_video_to_r2_def Let_def os_remove_def)
    next
      case bad: False
      have "result ''local_file_deleted'' = None"
        using up by (rule upload_file_no_deleted_key)
      with bad True up keep show ?thesis
        by (simp add: upload_file_async_def upload_video_to_r2_def Let_def)
    qed
  qed
qed

theorem delete_after_upload_witness:
  "\<exists>result w2.
     upload_video_to_r2 cdn_uploader ''downloads/douyin/annie/a.mp4'' ''douyin'' ''annie'' True
       (disk None {}) = (Inr result, w2) \<and>
     truthy (result ''success'') \<and>
     result ''local_file_deleted'' = Some (VBool True) \<and>
     fs w2 ''downloads/douyin/annie/a.mp4'' = None \<and>
     removals w2 = [''downloads/douyin/annie/a.mp4'']"
proof -
  let ?p = "''downloads/douyin/annie/a.mp4''"
  let ?w = "disk None {}"
  from delete_after_upload [of cdn_uploader ?p "''douyin''" "''annie''" ?w]
  obtain result w1 where
    up: "upload_file_async cdn_uploader ?p (Some (object_name_of ?p))
           (Some (video_metadata ''douyin'' ''annie'' ?w)) None ?w = (Inr result, w1)"
    and rest:
      "if truthy (result ''success'') then
        (if ?p \<in> undeletable ?w then
           \<exists>w2. upload_video_to_r2 cdn_uploader ?p ''douyin'' ''annie'' True ?w
                  = (Inr (result(''local_file_deleted'' \<mapsto> VBool False)), w2) \<and>
                fs w2 = fs ?w \<and> removals w2 = removals ?w @ [?p]
         else
           \<exists>w2. upload_video_to_r2 cdn_uploader ?p ''douyin'' ''annie'' True ?w
                  = (Inr (result(''local_file_deleted'' \<mapsto> VBool True)), w2) \<and>
                fs w2 = (fs ?w)(?p := None) \<and> removals w2 = removals ?w @ [?p])
      else
        \<exists>w2. upload_video_to_r2 cdn_uploader ?p ''douyin'' ''annie'' True ?w = (Inr result, w2) \<and>
             result ''local_file_deleted'' = None \<and>
             fs w2 = fs ?w \<and> removals w2 = removals ?w"
    by blast
  have ok: "truthy (result ''success'')"
    using up
    by (auto simp: upload_file_async_def upload_file_def os_path_exists_def os_path_getsize_def
        s3_upload_file_def disk_def Let_def truthy_def cdn_uploader_def
        split: prod.splits)
  have free: "?p \<notin> undeletable ?w" by (simp add: disk_def)
  have none: "removals ?w = []" by (simp add: removals_def disk_def)
  from rest ok free obtain w2 where
    "upload_video_to_r2 cdn_uploader ?p ''douyin'' ''annie'' True ?w
       = (Inr (result(''local_file_deleted'' \<mapsto> VBool True)), w2)"
    "fs w2 = (fs ?w)(?p := None)" "removals w2 = removals ?w @ [?p]"
    by auto
  with ok none show ?thesis by (auto simp: truthy_def)
qed

text \<open>
  Claim C10. With \<^verbatim>\<open>delete_after_upload\<close> false, \<^verbatim>\<open>upload_video_to_r2\<close> returns a
  dictionary without \<^verbatim>\<open>local_file_deleted\<close>, does not call \<^verbatim>\<open>os.remove\<close> and leaves
  the file system as it was, whatever the outcome of the upload.
\<close>

theorem no_delete_without_request:
  "\<exists>result w'.
     upload_video_to_r2 uploader file_path platform anchor_name False w = (Inr result, w') \<and>
     result ''local_file_deleted'' = None \<and> fs w' = fs w \<and> removals w' = removals w"
proof -
  let ?up = "upload_file uploader file_path (Some (object_name_of file_path))
       (Some (video_metadata platform anchor_name w)) None w"
  obtain result w1 where up: "?up = (Inr result, w1)"
    using upload_file_returns by blast
  note keep = upload_file_fields [OF up]
  have nokey: "result ''local_file_deleted'' = None"
    using up by (rule upload_file_no_deleted_key)
  show ?thesis
  proof (cases "os_path_exists w file_path")
    case False
    then show ?thesis by (simp add: upload_video_to_r2_def)
  next
    case True
    with up keep nokey show ?thesis
      by (simp add: upload_file_async_def upload_video_to_r2_def Let_def)
  qed
qed


theorem no_delete_without_request_witness:
  "\<exists>result w'.
     upload_video_to_r2 cdn_uploader ''downloads/douyin/annie/a.mp4'' ''douyin'' ''annie'' False
       (disk (Some (OtherException ''timeout'')) {}) = (Inr result, w') \<and>
     result ''local_file_deleted'' = None \<and>
     fs w' ''downloads/douyin/annie/a.mp4'' = Some 2048 \<and>
     removals w' = []"
proof -
  let ?w = "disk (Some (OtherException ''timeout'')) {}"
  have size: "fs ?w ''downloads/douyin/annie/a.mp4'' = Some 2048" by (simp add: disk_def)
  have none: "removals ?w = []" by (simp add: removals_def disk_def)
  from no_delete_without_request
    [of cdn_uploader "''downloads/douyin/annie/a.mp4''" "''douyin''" "''annie''" ?w] size none
  show ?thesis by auto
qed


section \<open>The object name derived from the path\<close>

text \<open>
  Claim C1. The object name of a path that contains the marker \<^verbatim>\<open>downloads\<close> should
  be everything after the marker. \<^verbatim>\<open>str.split\<close> cuts at every occurrence and the code
  keeps only the second piece, so a path with a second occurrence loses everything from
  there on: \<^verbatim>\<open>downloads/douyin/annie/my_downloads.mp4\<close> gets the object name
  \<^verbatim>\<open>douyin/annie/my_\<close>, where the specification's key is
  \<^verbatim>\<open>douyin/annie/my_downloads.mp4\<close>. (By \<open>object_name_single_marker\<close> the two agree
  when the marker occurs once.)
\<close>

theorem object_name_second_marker:
  "object_name_of ''downloads/douyin/annie/my_downloads.mp4'' = ''douyin/annie/my_'' \<and>
   claimed_object_key ''downloads/douyin/annie/my_downloads.mp4''
     = ''douyin/annie/my_downloads.mp4''"
  by code_simp

text \<open>
  Claim C2, as stated, fails: a path without the marker is kept whole, so an absolute
  path gives an object name that starts with a slash.
\<close>

theorem object_name_absolute_counterexample:
  "object_name_of ''/videos/a.mp4'' = ''/videos/a.mp4'' \<and>
   \<not> is_relative (object_name_of ''/videos/a.mp4'')"
  by code_simp

text \<open>
  Claim C2, amended. For every path the object name contains no backslash and does not
  contain \<^verbatim>\<open>downloads\<close>; it is relative exactly when the path contains the marker or
  does not itself start with a slash or a backslash; and without the marker it is the
  whole path with backslashes turned into slashes.
\<close>

theorem object_name_shape:
  "backslash \<notin> set (object_name_of file_path) \<and>
   \<not> str_contains ''downloads'' (object_name_of file_path) \<and>
   (is_relative (object_name_of file_path) \<longleftrightarrow>
      str_contains ''downloads'' file_path \<or> file_path = [] \<or>
      hd file_path \<notin> {slash, backslash}) \<and>
   (\<not> str_contains ''downloads'' file_path \<longrightarrow>
      object_name_of file_path = str_replace backslash slash file_path)"
proof -
  have no_backslash: "backslash \<notin> set (object_name_of file_path)"
    by (auto simp: object_name_of_def str_replace_def)
  have absent: "object_name_of file_path = str_replace backslash slash file_path"
    if "\<not> str_contains ''downloads'' file_path"
    using that by (simp add: object_name_of_def relative_path_def)
  have free_rel: "\<not> str_contains ''downloads'' (relative_path file_path)"
  proof (cases "find_sep ''downloads'' file_path")
    case None
    then show ?thesis by (simp add: relative_path_def str_contains_def)
  next
    case (Some ab)
    obtain a b where ab: "ab = (a, b)" by (cases ab)
    let ?seg = "hd (str_split ''downloads'' b)"
    have "str_split ''downloads'' b \<noteq> []" by (simp add: str_split_nonempty)
    then have "?seg \<in> set (str_split ''downloads'' b)" by simp
    then have seg: "\<not> str_contains ''downloads'' ?seg"
      by (rule str_split_parts_free [rotated]) simp
    have "\<not> str_contains ''downloads'' (dropWhile (\<lambda>c. c \<in> set [slash, backslash]) ?seg)"
    proof
      assume "str_contains ''downloads'' (dropWhile (\<lambda>c. c \<in> set [slash, backslash]) ?seg)"
      then have "str_contains ''downloads'' ?seg" by (rule str_contains_dropWhile)
      with seg show False by contradiction
    qed
    moreover from Some ab have "relative_path file_path = lstrip [slash, backslash] ?seg"
      by (simp add: relative_path_marker)
    ultimately show ?thesis by (simp add: lstrip_def)
  qed
  have free: "\<not> str_contains ''downloads'' (object_name_of file_path)"
  proof
    assume "str_contains ''downloads'' (object_name_of file_path)"
    then have "str_contains ''downloads'' (str_replace backslash slash (relative_path file_path))"
      by (simp add: object_name_of_def)
    then have "str_contains ''downloads'' (relative_path file_path)"
      by (rule str_contains_replace [rotated]) simp
    with free_rel show False by contradiction
  qed
  have rel: "is_relative (object_name_of file_path) \<longleftrightarrow>
      str_contains ''downloads'' file_path \<or> file_path = [] \<or>
      hd file_path \<notin> {slash, backslash}"
  proof (cases "find_sep ''downloads'' file_path")
    case None
    then have key: "object_name_of file_path = str_replace backslash slash file_path"
      and nc: "\<not> str_contains ''downloads'' file_path"
      by (simp_all add: object_name_of_def relative_path_def str_contains_def)
    show ?thesis
    proof (cases file_path)
      case Nil
      with key show ?thesis by (simp add: is_relative_def str_replace_def)
    next
      case (Cons c cs)
      with key nc show ?thesis by (simp add: is_relative_def str_replace_def)
    qed
  next
    case (Some ab)
    obtain a b where ab: "ab = (a, b)" by (cases ab)
    let ?seg = "hd (str_split ''downloads'' b)"
    let ?rest = "dropWhile (\<lambda>c. c \<in> set [slash, backslash]) ?seg"
    have "is_relative (str_replace backslash slash ?rest)"
    proof (cases ?rest)
      case Nil
      then show ?thesis by (simp add: is_relative_def str_replace_def)
    next
      case (Cons c cs)
      then have "\<not> c \<in> set [slash, backslash]"
        using hd_dropWhile [of "\<lambda>c. c \<in> set [slash, backslash]" ?seg] by force
      then have "c \<noteq> slash" "c \<noteq> backslash" by simp_all
      with Cons show ?thesis by (simp add: is_relative_def str_replace_def)
    qed
    moreover from Some ab have "relative_path file_path = lstrip [slash, backslash] ?seg"
      by (simp add: relative_path_marker)
    moreover from Some have "str_contains ''downloads'' file_path"
      by (simp add: str_contains_def)
    ultimately show ?thesis by (simp add: object_name_of_def lstrip_def)
  qed
  from no_backslash free rel absent show ?thesis by blast
qed


theorem object_name_shape_witness:
  "str_contains ''downloads'' ''downloads/douyin/annie/a.mp4'' \<and>
   is_relative (object_name_of ''downloads/douyin/annie/a.mp4'') \<and>
   \<not> str_contains ''downloads'' (object_name_of ''downloads/douyin/annie/a.mp4'') \<and>
   \<not> str_contains ''downloads'' (''C:'' @ backslash # ''videos'' @ backslash # ''a.mp4'') \<and>
   object_name_of (''C:'' @ backslash # ''videos'' @ backslash # ''a.mp4'')
     = str_replace backslash slash (''C:'' @ backslash # ''videos'' @ backslash # ''a.mp4'')"
proof -
  have present: "str_contains ''downloads'' ''downloads/douyin/annie/a.mp4''"
    by code_simp
  have absent: "\<not> str_contains ''downloads'' (''C:'' @ backslash # ''videos'' @ backslash # ''a.mp4'')"
    by code_simp
  from object_name_shape [of "''downloads/douyin/annie/a.mp4''"] present
  have "is_relative (object_name_of ''downloads/douyin/annie/a.mp4'') \<and>
        \<not> str_contains ''downloads'' (object_name_of ''downloads/douyin/annie/a.mp4'')"
    by blast
  moreover from object_name_shape [of "''C:'' @ backslash # ''videos'' @ backslash # ''a.mp4''"] absent
  have "object_name_of (''C:'' @ backslash # ''videos'' @ backslash # ''a.mp4'')
          = str_replace backslash slash (''C:'' @ backslash # ''videos'' @ backslash # ''a.mp4'')"
    by blast
  ultimately show ?thesis using present absent by blast
qed


section \<open>The content-type table\<close>

text \<open>
  Claim C6. For every path, \<^verbatim>\<open>_get_content_type\<close> returns the entry of the table
  for the lower-cased suffix of the path and \<^verbatim>\<open>application/octet-stream\<close> when the
  table has none, so two paths whose suffixes agree up to case get the same type. For a
  last component made of a non-empty stem, a dot and a non-empty extension the suffix is
  the dot and the extension, so the type is the table's entry for the lower-cased
  extension; a last component without a dot, one whose only dot comes first and one that
  ends with a dot have no suffix and get \<^verbatim>\<open>application/octet-stream\<close>.
\<close>

theorem content_type_lookup:
  "get_content_type file_path =
     (if lower (path_suffix file_path) = ''.mp4'' then ''video/mp4''
      else if lower (path_suffix file_path) = ''.mkv'' then ''video/x-matroska''
      else if lower (path_suffix file_path) = ''.flv'' then ''video/x-flv''
      else if lower (path_suffix file_path) = ''.ts'' then ''video/mp2t''
      else if lower (path_suffix file_path) = ''.m3u8'' then ''application/vnd.apple.mpegurl''
      else if lower (path_suffix file_path) = ''.mp3'' then ''audio/mpeg''
      else if lower (path_suffix file_path) = ''.m4a'' then ''audio/mp4''
      else if lower (path_suffix file_path) = ''.aac'' then ''audio/aac''
      else if lower (path_suffix file_path) = ''.txt'' then ''text/plain''
      else if lower (path_suffix file_path) = ''.json'' then ''application/json''
      else ''application/octet-stream'') \<and>
   (lower (path_suffix other_path) = lower (path_suffix file_path) \<longrightarrow>
      get_content_type other_path = get_content_type file_path) \<and>
   ((d = [] \<or> last d = slash) \<and> slash \<notin> set stem \<and> slash \<notin> set ext \<and> dot \<notin> set ext \<longrightarrow>
      (stem \<noteq> [] \<and> ext \<noteq> [] \<longrightarrow>
         path_suffix (d @ stem @ ''.'' @ ext) = ''.'' @ ext \<and>
         get_content_type (d @ stem @ ''.'' @ ext) =
           (if lower ext = ''mp4'' then ''video/mp4''
            else if lower ext = ''mkv'' then ''video/x-matroska''
            else if lower ext = ''flv'' then ''video/x-flv''
            else if lower ext = ''ts'' then ''video/mp2t''
            else if lower ext = ''m3u8'' then ''application/vnd.apple.mpegurl''
            else if lower ext = ''mp3'' then ''audio/mpeg''
            else if lower ext = ''m4a'' then ''audio/mp4''
            else if lower ext = ''aac'' then ''audio/aac''
            else if lower ext = ''txt'' then ''text/plain''
            else if lower ext = ''json'' then ''application/json''
            else ''application/octet-stream'') \<and>
         get_content_type (d @ stem @ ''.'' @ lower ext)
           = get_content_type (d @ stem @ ''.'' @ ext)) \<and>
      (ext \<noteq> [] \<longrightarrow> get_content_type (d @ ext) = ''application/octet-stream'') \<and>
      (ext \<noteq> [] \<longrightarrow> get_content_type (d @ ''.'' @ ext) = ''application/octet-stream'') \<and>
      (stem \<noteq> [] \<longrightarrow> get_content_type (d @ stem @ ''.'') = ''application/octet-stream''))"
proof -
  have table: "get_content_type p =
     (if lower (path_suffix p) = ''.mp4'' then ''video/mp4''
      else if lower (path_suffix p) = ''.mkv'' then ''video/x-matroska''
      else if lower (path_suffix p) = ''.flv'' then ''video/x-flv''
      else if lower (path_suffix p) = ''.ts'' then ''video/mp2t''
      else if lower (path_suffix p) = ''.m3u8'' then ''application/vnd.apple.mpegurl''
      else if lower (path_suffix p) = ''.mp3'' then ''audio/mpeg''
      else if lower (path_suffix p) = ''.m4a'' then ''audio/mp4''
      else if lower (path_suffix p) = ''.aac'' then ''audio/aac''
      else if lower (path_suffix p) = ''.txt'' then ''text/plain''
      else if lower (path_suffix p) = ''.json'' then ''application/json''
      else ''application/octet-stream'')" for p
    by (simp add: get_content_type_def content_types_def)
  have same: "get_content_type other_path = get_content_type file_path"
    if "lower (path_suffix other_path) = lower (path_suffix file_path)"
    using that by (simp add: get_content_type_def)
  have empty: "get_content_type p = ''application/octet-stream''" if "path_suffix p = []" for p
    using that by (simp add: get_content_type_def content_types_def lower_def)
  have named:
    "(stem \<noteq> [] \<and> ext \<noteq> [] \<longrightarrow>
         path_suffix (d @ stem @ ''.'' @ ext) = ''.'' @ ext \<and>
         get_content_type (d @ stem @ ''.'' @ ext) =
           (if lower ext = ''mp4'' then ''video/mp4''
            else if lower ext = ''mkv'' then ''video/x-matroska''
            else if lower ext = ''flv'' then ''video/x-flv''
            else if lower ext = ''ts'' then ''video/mp2t''
            else if lower ext = ''m3u8'' then ''application/vnd.apple.mpegurl''
            else if lower ext = ''mp3'' then ''audio/mpeg''
            else if lower ext = ''m4a'' then ''audio/mp4''
            else if lower ext = ''aac'' then ''audio/aac''
            else if lower ext = ''txt'' then ''text/plain''
            else if lower ext = ''json'' then ''application/json''
            else ''application/octet-stream'') \<and>
         get_content_type (d @ stem @ ''.'' @ lower ext)
           = get_content_type (d @ stem @ ''.'' @ ext)) \<and>
      (ext \<noteq> [] \<longrightarrow> get_content_type (d @ ext) = ''application/octet-stream'') \<and>
      (ext \<noteq> [] \<longrightarrow> get_content_type (d @ ''.'' @ ext) = ''application/octet-stream'') \<and>
      (stem \<noteq> [] \<longrightarrow> get_content_type (d @ stem @ ''.'') = ''application/octet-stream'')"
    if wf: "d = [] \<or> last d = slash" "slash \<notin> set stem" "slash \<notin> set ext" "dot \<notin> set ext"
  proof -
    have with_ext: "path_suffix (d @ stem @ ''.'' @ e) = ''.'' @ e"
      if "stem \<noteq> []" "e \<noteq> []" "dot \<notin> set e" "slash \<notin> set e" for e
      using that wf(1,2) by (intro path_suffix_extension) simp_all
    have by_ext: "get_content_type (d @ stem @ ''.'' @ e) =
           (if lower e = ''mp4'' then ''video/mp4''
            else if lower e = ''mkv'' then ''video/x-matroska''
            else if lower e = ''flv'' then ''video/x-flv''
            else if lower e = ''ts'' then ''video/mp2t''
            else if lower e = ''m3u8'' then ''application/vnd.apple.mpegurl''
            else if lower e = ''mp3'' then ''audio/mpeg''
            else if lower e = ''m4a'' then ''audio/mp4''
            else if lower e = ''aac'' then ''audio/aac''
            else if lower e = ''txt'' then ''text/plain''
            else if lower e = ''json'' then ''application/json''
            else ''application/octet-stream'')"
      if "stem \<noteq> []" "e \<noteq> []" "dot \<notin> set e" "slash \<notin> set e" for e
    proof -
      from with_ext [OF that] have "lower (path_suffix (d @ stem @ ''.'' @ e)) = dot # lower e"
        by (simp add: lower_def lower_char_def)
      then show ?thesis by (simp add: get_content_type_def content_types_def)
    qed
    have first: "path_suffix (d @ stem @ ''.'' @ ext) = ''.'' @ ext \<and>
         get_content_type (d @ stem @ ''.'' @ ext) =
           (if lower ext = ''mp4'' then ''video/mp4''
            else if lower ext = ''mkv'' then ''video/x-matroska''
            else if lower ext = ''flv'' then ''video/x-flv''
            else if lower ext = ''ts'' then ''video/mp2t''
            else if lower ext = ''m3u8'' then ''application/vnd.apple.mpegurl''
            else if lower ext = ''mp3'' then ''audio/mpeg''
            else if lower ext = ''m4a'' then ''audio/mp4''
            else if lower ext = ''aac'' then ''audio/aac''
            else if lower ext = ''txt'' then ''text/plain''
            else if lower ext = ''json'' then ''application/json''
            else ''application/octet-stream'') \<and>
         get_content_type (d @ stem @ ''.'' @ lower ext)
           = get_content_type (d @ stem @ ''.'' @ ext)"
      if ne: "stem \<noteq> []" "ext \<noteq> []"
    proof -
      from ne(2) wf(3,4) have low:
        "lower ext \<noteq> []" "dot \<notin> set (lower ext)" "slash \<notin> set (lower ext)"
        by (simp_all add: lower_keeps)
      have "get_content_type (d @ stem @ ''.'' @ lower ext)
          = get_content_type (d @ stem @ ''.'' @ ext)"
        using by_ext [OF ne(1) low] by_ext [OF ne wf(4,3)] by (simp add: lower_idem)
      with with_ext [OF ne wf(4,3)] by_ext [OF ne wf(4,3)] show ?thesis by blast
    qed
    from wf(1,3) have none:
      "ext \<noteq> [] \<Longrightarrow> path_suffix (d @ ext) = []"
      "ext \<noteq> [] \<Longrightarrow> path_suffix (d @ ''.'' @ ext) = []"
      using path_suffix_none(1,2) [of ext d] wf(4) by blast+
    from wf(1,2) have trailing: "stem \<noteq> [] \<Longrightarrow> path_suffix (d @ stem @ ''.'') = []"
      using path_suffix_none(3) [of stem d] by blast
    from first none trailing empty show ?thesis by blast
  qed
  from table [of file_path] same named show ?thesis by blast
qed

theorem content_type_lookup_witness:
  "get_content_type ''downloads/douyin/annie/clip.MP4'' = ''video/mp4'' \<and>
   get_content_type ''downloads/douyin/annie/clip.mp4'' = ''video/mp4'' \<and>
   get_content_type ''downloads/douyin/annie/MP4'' = ''application/octet-stream'' \<and>
   get_content_type ''downloads/douyin/annie/.MP4'' = ''application/octet-stream'' \<and>
   get_content_type ''downloads/douyin/annie/clip.'' = ''application/octet-stream'' \<and>
   get_content_type ''clip.avi'' = ''application/octet-stream''"
proof -
  have shape: "(''downloads/douyin/annie/'' = [] \<or> last ''downloads/douyin/annie/'' = slash) \<and>
      slash \<notin> set ''clip'' \<and> slash \<notin> set ''MP4'' \<and> dot \<notin> set ''MP4''"
    by simp
  have ne: "''clip'' \<noteq> []" "''MP4'' \<noteq> []" by simp_all
  have low: "lower ''MP4'' = ''mp4''"
    by (simp add: lower_def lower_char_def)
  from content_type_lookup
    [of "''clip.avi''" "''clip.avi''" "''downloads/douyin/annie/''" "''clip''" "''MP4''"]
    shape ne
  have inst:
    "get_content_type (''downloads/douyin/annie/'' @ ''clip'' @ ''.'' @ ''MP4'') =
       (if lower ''MP4'' = ''mp4'' then ''video/mp4''
        else if lower ''MP4'' = ''mkv'' then ''video/x-matroska''
        else if lower ''MP4'' = ''flv'' then ''video/x-flv''
        else if lower ''MP4'' = ''ts'' then ''video/mp2t''
        else if lower ''MP4'' = ''m3u8'' then ''application/vnd.apple.mpegurl''
        else if lower ''MP4'' = ''mp3'' then ''audio/mpeg''
        else if lower ''MP4'' = ''m4a'' then ''audio/mp4''
        else if lower ''MP4'' = ''aac'' then ''audio/aac''
        else if lower ''MP4'' = ''txt'' then ''text/plain''
        else if lower ''MP4'' = ''json'' then ''application/json''
        else ''application/octet-stream'')"
    "get_content_type (''downloads/douyin/annie/'' @ ''clip'' @ ''.'' @ lower ''MP4'')
       = get_content_type (''downloads/douyin/annie/'' @ ''clip'' @ ''.'' @ ''MP4'')"
    "get_content_type (''downloads/douyin/annie/'' @ ''MP4'') = ''application/octet-stream''"
    "get_content_type (''downloads/douyin/annie/'' @ ''.'' @ ''MP4'') = ''application/octet-stream''"
    "get_content_type (''downloads/douyin/annie/'' @ ''clip'' @ ''.'') = ''application/octet-stream''"
    by blast+
  have suffix: "lower (path_suffix ''clip.avi'') = ''.avi''" by code_simp
  from content_type_lookup [of "''clip.avi''"] suffix
  have avi: "get_content_type ''clip.avi'' = ''application/octet-stream''" by simp
  from inst low avi show ?thesis by simp
qed


section \<open>Directory upload\<close>

text \<open>
  Claim C7. With a non-empty \<^verbatim>\<open>format_filter\<close>, \<^verbatim>\<open>upload_directory\<close> selects the
  files whose lower-cased suffix is a dot followed by a stripped, lower-cased entry of the
  comma-separated filter; the built-in set plays no part. For a file name made of a stem,
  a dot and an extension this means: the extension equals an entry of the filter up to
  case.
\<close>

theorem format_filter_selection:
  assumes "format_filter \<noteq> []"
  shows "find_video_files w dir_path (Some format_filter) =
           concat (map (\<lambda>(root, ds, files).
                          map (os_path_join root)
                            (filter (\<lambda>file. lower (path_suffix file) \<in>
                                        (\<lambda>fmt. ''.'' @ lower (strip fmt)) `
                                          set (str_split '','' format_filter))
                               files))
                     (walk w dir_path)) \<and>
         (stem \<noteq> [] \<and> slash \<notin> set stem \<and> ext \<noteq> [] \<and> dot \<notin> set ext \<and> slash \<notin> set ext \<longrightarrow>
            (lower (path_suffix (stem @ ''.'' @ ext)) \<in> video_extensions (Some format_filter)
               \<longleftrightarrow> (\<exists>fmt \<in> set (str_split '','' format_filter). lower (strip fmt) = lower ext)))"
proof -
  from assms have exts: "video_extensions (Some format_filter)
      = (\<lambda>fmt. ''.'' @ lower (strip fmt)) ` set (str_split '','' format_filter)"
    by (simp add: video_extensions_def)
  have "lower (path_suffix (stem @ ''.'' @ ext)) \<in> video_extensions (Some format_filter)
      \<longleftrightarrow> (\<exists>fmt \<in> set (str_split '','' format_filter). lower (strip fmt) = lower ext)"
    if wf: "stem \<noteq> []" "slash \<notin> set stem" "ext \<noteq> []" "dot \<notin> set ext" "slash \<notin> set ext"
  proof -
    from wf have "path_suffix ([] @ stem @ ''.'' @ ext) = ''.'' @ ext"
      by (intro path_suffix_extension) simp_all
    then have "lower (path_suffix (stem @ ''.'' @ ext)) = dot # lower ext"
      by (simp add: lower_def lower_char_def)
    then show ?thesis unfolding exts by (auto simp: image_iff) metis
  qed
  with exts show ?thesis by (simp add: find_video_files_def)
qed

theorem format_filter_selection_witness:
  "''txt, MKV'' \<noteq> [] \<and>
   find_video_files (disk None {}) ''downloads'' (Some ''txt, MKV'')
     = [''downloads/douyin/annie/gone.MKV'', ''downloads/douyin/annie/notes.txt''] \<and>
   lower (path_suffix ''a.mp4'') \<notin> video_extensions (Some ''txt, MKV'')"
proof -
  have ne: "''txt, MKV'' \<noteq> []" by simp
  have files: "concat (map (\<lambda>(root, ds, files).
                          map (os_path_join root)
                            (filter (\<lambda>file. lower (path_suffix file) \<in>
                                        (\<lambda>fmt. ''.'' @ lower (strip fmt)) `
                                          set (str_split '','' ''txt, MKV''))
                               files))
                     (walk (disk None {}) ''downloads''))
     = [''downloads/douyin/annie/gone.MKV'', ''downloads/douyin/annie/notes.txt'']"
    by code_simp
  have wf: "''a'' \<noteq> [] \<and> slash \<notin> set ''a'' \<and> ''mp4'' \<noteq> [] \<and> dot \<notin> set ''mp4'' \<and> slash \<notin> set ''mp4''"
    by simp
  have none: "\<not> (\<exists>fmt \<in> set (str_split '','' ''txt, MKV''). lower (strip fmt) = lower ''mp4'')"
    by code_simp
  from format_filter_selection [OF ne, of "disk None {}" "''downloads''" "''a''" "''mp4''"]
    files wf none
  show ?thesis by simp
qed

text \<open>
  Claim C4. On a directory, \<^verbatim>\<open>upload_directory\<close> returns normally and takes one
  turn for every matched file, in the order of the walk, each turn starting in the world
  the turn before left, whatever its outcome: \<^verbatim>\<open>upload_single_file\<close> is entered on
  every file, the storage client is called, with the object name derived from the path,
  for exactly the files that exist at their turn, the success counter of the closing log
  record is the number of files whose upload succeeded at their turn, the failure
  counter the number of the others, and the two add up to the number of matched files.
\<close>

theorem upload_directory_counts:
  assumes "os_path_isdir w dir_path"
  shows "let files = find_video_files w dir_path format_filter;
             turns = turn_worlds uploader delete_after files
                       (logger INFO ''Found {len(video_files)} video files to upload''
                          [VInt (int (length files))] w)
         in \<exists>success_count fail_count w'.
              upload_directory uploader dir_path delete_after format_filter w = (Inr (), w') \<and>
              last (trace w')
                = Log INFO ''Upload complete: {success_count} successful, {fail_count} failed''
                    [VInt (int success_count), VInt (int fail_count)] \<and>
              success_count + fail_count = length files \<and>
              success_count
                = length (filter (\<lambda>(f, wi). upload_accepted uploader f wi) (zip files turns)) \<and>
              fail_count
                = length (filter (\<lambda>(f, wi). \<not> upload_accepted uploader f wi) (zip files turns)) \<and>
              attempts w' = attempts w @ files \<and>
              client_calls w'
                = client_calls w @
                    map (\<lambda>(f, wi). video_upload_call uploader f wi)
                      (filter (\<lambda>(f, wi). os_path_exists wi f) (zip files turns))"
proof -
  let ?files = "find_video_files w dir_path format_filter"
  let ?w1 = "logger INFO ''Found {len(video_files)} video files to upload''
                   [VInt (int (length ?files))] w"
  let ?turns = "turn_worlds uploader delete_after ?files ?w1"
  have len: "length ?turns = length ?files" for u d
  proof -
    have "length (turn_worlds uploader delete_after fs v) = length fs" for fs v
      by (induction fs arbitrary: v) simp_all
    then show ?thesis .
  qed
  from upload_loop_turns [of uploader delete_after ?files 0 0 ?w1]
  obtain sc fc w2 where loop:
    "upload_loop uploader delete_after ?files 0 0 ?w1 = (Inr (sc, fc), w2)"
    "sc = length (filter (\<lambda>(f, wi). upload_accepted uploader f wi) (zip ?files ?turns))"
    "fc = length (filter (\<lambda>(f, wi). \<not> upload_accepted uploader f wi) (zip ?files ?turns))"
    "attempts w2 = attempts ?w1 @ ?files"
    "client_calls w2
       = client_calls ?w1 @
           map (\<lambda>(f, wi). video_upload_call uploader f wi)
             (filter (\<lambda>(f, wi). os_path_exists wi f) (zip ?files ?turns))"
    by auto
  have split: "length (filter (\<lambda>(f, wi). upload_accepted uploader f wi) xs) +
      length (filter (\<lambda>(f, wi). \<not> upload_accepted uploader f wi) xs) = length xs" for xs
    by (induction xs) auto
  have "sc + fc = length (zip ?files ?turns)"
    unfolding loop(2,3) by (rule split)
  with len have total: "sc + fc = length ?files" by simp
  from assms loop(1,4,5) total loop(2,3) show ?thesis
    unfolding Let_def
    by (intro exI [of _ sc] exI [of _ fc]
        exI [of _ "logger INFO ''Upload complete: {success_count} successful, {fail_count} failed''
                    [VInt (int sc), VInt (int fc)] w2"])
      (simp add: upload_directory_def Let_def trace_logger)
qed

theorem upload_directory_counts_witness:
  "os_path_isdir (disk None {}) ''downloads'' \<and>
   find_video_files (disk None {}) ''downloads'' None
     = [''downloads/douyin/annie/gone.MKV'', ''downloads/douyin/annie/a.mp4''] \<and>
   (\<exists>w'. upload_directory cdn_uploader ''downloads'' False None (disk None {}) = (Inr (), w') \<and>
      last (trace w')
        = Log INFO ''Upload complete: {success_count} successful, {fail_count} failed''
            [VInt 1, VInt 1] \<and>
      attempts w' = [''downloads/douyin/annie/gone.MKV'', ''downloads/douyin/annie/a.mp4''] \<and>
      client_calls w'
        = [S3Upload ''downloads/douyin/annie/a.mp4'' ''recordings'' ''douyin/annie/a.mp4''
             \<lparr>ContentType = Some ''video/mp4'',
              Metadata = Some [(''platform'', ''douyin''), (''anchor'', ''annie''),
                               (''upload_timestamp'', ''1700000000'')]\<rparr>])"
proof -
  let ?gone = "''downloads/douyin/annie/gone.MKV''" and ?a = "''downloads/douyin/annie/a.mp4''"
  let ?w1 = "logger INFO ''Found {len(video_files)} video files to upload''
               [VInt (int (length [?gone, ?a]))] (disk None {})"
  have isdir: "os_path_isdir (disk None {}) ''downloads''"
    by (simp add: os_path_isdir_def disk_def)
  have files: "find_video_files (disk None {}) ''downloads'' None = [?gone, ?a]"
    by code_simp
  have fresh: "attempts (disk None {}) = []" "client_calls (disk None {}) = []"
    by (simp_all add: attempts_def client_calls_def disk_def)
  obtain w2 where first:
    "upload_single_file cdn_uploader ?gone (fst (platform_anchor ?gone))
       (snd (platform_anchor ?gone)) False ?w1 = (Inr False, w2)"
    and w2: "w2 = logger ERROR ''File not found: {file_path}'' [VStr ?gone] ?w1"
    by (simp add: upload_single_file_def os_path_exists_def disk_def)
  have turns: "turn_worlds cdn_uploader False [?gone, ?a] ?w1 = [?w1, w2]"
    using first by simp
  have gone: "\<not> os_path_exists ?w1 ?gone" "\<not> upload_accepted cdn_uploader ?gone ?w1"
    by (simp_all add: upload_accepted_def os_path_exists_def disk_def)
  have there: "os_path_exists w2 ?a" "upload_accepted cdn_uploader ?a w2"
    by (simp_all add: w2 upload_accepted_def os_path_exists_def disk_def)
  have pa: "platform_anchor ?a = (''douyin'', ''annie'')" by code_simp
  have ct: "get_content_type ?a = ''video/mp4''" by code_simp
  have key: "object_name_of ?a = ''douyin/annie/a.mp4''" by code_simp
  have call: "video_upload_call cdn_uploader ?a w2
     = S3Upload ?a ''recordings'' ''douyin/annie/a.mp4''
         \<lparr>ContentType = Some ''video/mp4'',
          Metadata = Some [(''platform'', ''douyin''), (''anchor'', ''annie''),
                           (''upload_timestamp'', ''1700000000'')]\<rparr>"
    by (simp add: video_upload_call_def video_extra_args_def video_metadata_def pa ct key
        cdn_uploader_def w2 disk_def)
  from upload_directory_counts [OF isdir, of None cdn_uploader False]
  have "\<exists>success_count fail_count w'.
      upload_directory cdn_uploader ''downloads'' False None (disk None {}) = (Inr (), w') \<and>
      last (trace w')
        = Log INFO ''Upload complete: {success_count} successful, {fail_count} failed''
            [VInt (int success_count), VInt (int fail_count)] \<and>
      success_count = 1 \<and> fail_count = 1 \<and>
      attempts w' = [?gone, ?a] \<and>
      client_calls w' = [video_upload_call cdn_uploader ?a w2]"
    unfolding Let_def files turns using gone there fresh by simp
  with isdir files call show ?thesis by auto
qed

end
